theory Spec2Isabelle
  imports Complex_Main "HOL-Library.Sublist" "HOL-Library.AList" "HOL-Library.FSet"
    "HOL-Library.Log_Nat"
begin

section \<open>Python values\<close>

text \<open>
  The values that \<^verbatim>\<open>json.loads\<close> produces and that the handler passes around untyped:
  \<^verbatim>\<open>None\<close>, booleans, unbounded integers, floats, strings, lists and dicts. A dict is an
  association list in insertion order; its keys are unique, so the first binding of a key is
  its only one. A float is modelled by the real number it denotes: the non-finite floats
  are not represented, and of rounding only that of an integer turned into a float. In a
  DataFrame cell \<open>PNone\<close> stands for every missing value of pandas (\<^verbatim>\<open>None\<close>, \<^verbatim>\<open>NaN\<close>,
  \<^verbatim>\<open>NA\<close>). The handler never looks into a string of the document: it compares it, tests
  whether it is empty and hands it to \<^verbatim>\<open>float\<close>; such a string is a \<open>string\<close>. The object
  key, which the Partition Resolver searches character by character, is a \<open>ustring\<close>:
  the list of the Unicode code points of a Python \<^verbatim>\<open>str\<close>; \<open>ascii\<close> turns a literal into
  one.
\<close>

datatype pyval =
    PNone
  | PBool bool
  | PInt int
  | PFloat real
  | PStr string
  | PList "pyval list"
  | PDict "(string \<times> pyval) list"

datatype pyerr = AttributeError | TypeError | ValueError | OverflowError | KeyError

type_synonym ustring = "nat list"

definition ord :: "char \<Rightarrow> nat" where
  "ord c = of_char c"

definition ascii :: "string \<Rightarrow> ustring" where
  "ascii s = map ord s"

text \<open>
  What the handler reads from outside the program. \<open>str_float\<close> is \<^verbatim>\<open>float\<close> on a string
  (\<open>None\<close> when it raises \<^verbatim>\<open>ValueError\<close>); \<open>astype\<close> is the column conversion
  \<^verbatim>\<open>Series.astype(dtype, errors='ignore')\<close> of pandas (\<open>None\<close> when the call raises);
  \<open>now_iso\<close> and \<open>today\<close> are the clock, \<^verbatim>\<open>datetime.now().isoformat()\<close> and
  \<^verbatim>\<open>datetime.now().strftime('%Y-%m-%d')\<close>, read as one fixed instant; \<open>environment\<close> is
  the \<^verbatim>\<open>ENVIRONMENT\<close> variable. \<open>unicode_alnum\<close> and \<open>unicode_decimal\<close> are the Unicode
  character database of the interpreter beyond ASCII: \<^verbatim>\<open>str.isalnum\<close> and
  \<^verbatim>\<open>str.isdecimal\<close> of the character with a given code point, which is what the classes
  \<^verbatim>\<open>\w\<close> and \<^verbatim>\<open>\d\<close> of a \<^verbatim>\<open>str\<close> pattern consult.
\<close>

record env =
  str_float :: "string \<Rightarrow> real option"
  astype :: "string \<Rightarrow> pyval list \<Rightarrow> pyval list option"
  now_iso :: string
  today :: string
  environment :: string
  unicode_alnum :: "nat \<Rightarrow> bool"
  unicode_decimal :: "nat \<Rightarrow> bool"

text \<open>The warnings the handler logs, kept as data.\<close>

datatype warning =
    NoShows ustring
  | NormalizeFailed pyval pyerr
  | CastFailed string string
  | NoDate ustring
  | NoDataType ustring

section \<open>Partition Resolver\<close>

text \<open>
  The character classes of the two patterns. The patterns are \<^verbatim>\<open>str\<close> patterns, so the
  classes are the Unicode ones: \<^verbatim>\<open>\d\<close> is a decimal digit, \<^verbatim>\<open>\w\<close> is an alphanumeric
  character or the underscore. On ASCII they are \<^verbatim>\<open>[0-9]\<close> and \<^verbatim>\<open>[A-Za-z0-9_]\<close>; beyond
  ASCII the character database decides.
\<close>

definition ascii_digit :: "nat \<Rightarrow> bool" where
  "ascii_digit c = (48 \<le> c \<and> c \<le> 57)"

definition ascii_word :: "nat \<Rightarrow> bool" where
  "ascii_word c = ((97 \<le> c \<and> c \<le> 122) \<or> (65 \<le> c \<and> c \<le> 90) \<or> ascii_digit c \<or> c = 95)"

definition is_digit :: "env \<Rightarrow> nat \<Rightarrow> bool" where
  "is_digit e c = (ascii_digit c \<or> (128 \<le> c \<and> unicode_decimal e c))"

definition is_word :: "env \<Rightarrow> nat \<Rightarrow> bool" where
  "is_word e c = (ascii_word c \<or> (128 \<le> c \<and> (unicode_alnum e c \<or> unicode_decimal e c)))"

text \<open>
  \<^verbatim>\<open>re.search\<close> tries the pattern at every start position from the left, the end of the
  string included, and returns the first match; \<open>m\<close> matches the pattern at the front of a
  string and returns its group.
\<close>

fun re_search :: "(ustring \<Rightarrow> ustring option) \<Rightarrow> ustring \<Rightarrow> ustring option" where
  "re_search m [] = m []"
| "re_search m (c # cs) =
     (case m (c # cs) of
        Some g \<Rightarrow> Some g
      | None \<Rightarrow> re_search m cs)"

text \<open>\<^verbatim>\<open>re.search(r'dt=(\d{4}-\d{2}-\d{2})', key)\<close>\<close>

definition date_shape :: "env \<Rightarrow> ustring \<Rightarrow> bool" where
  "date_shape e d =
     (length d = 10 \<and> list_all (is_digit e) (take 4 d) \<and> d ! 4 = ord CHR ''-''
      \<and> list_all (is_digit e) (take 2 (drop 5 d)) \<and> d ! 7 = ord CHR ''-''
      \<and> list_all (is_digit e) (take 2 (drop 8 d)))"

definition match_date :: "env \<Rightarrow> ustring \<Rightarrow> ustring option" where
  "match_date e s =
     (if prefix (ascii ''dt='') s \<and> date_shape e (take 10 (drop 3 s))
      then Some (take 10 (drop 3 s)) else None)"

definition extract_partition_date :: "env \<Rightarrow> ustring \<Rightarrow> ustring \<times> warning list" where
  "extract_partition_date e key =
     (case re_search (match_date e) key of
        Some d \<Rightarrow> (d, [])
      | None \<Rightarrow> (ascii (today e), [NoDate key]))"

text \<open>
  \<^verbatim>\<open>re.search(r'shows/(\w+)/', key)\<close>: \<open>word_segment\<close> matches \<^verbatim>\<open>(\w+)/\<close> at the front of a
  string. The slash is no word character, so the greedy group can only be the whole run of
  word characters. \<open>match_data_type\<close> matches the whole pattern at the front of a string.
\<close>

definition word_segment :: "env \<Rightarrow> ustring \<Rightarrow> ustring option" where
  "word_segment e s =
     (let w = takeWhile (is_word e) s in
      if w \<noteq> [] \<and> prefix (ascii ''/'') (dropWhile (is_word e) s) then Some w else None)"

definition match_data_type :: "env \<Rightarrow> ustring \<Rightarrow> ustring option" where
  "match_data_type e s =
     (if prefix (ascii ''shows/'') s then word_segment e (drop 6 s) else None)"

definition extract_data_type :: "env \<Rightarrow> ustring \<Rightarrow> ustring \<times> warning list" where
  "extract_data_type e key =
     (case re_search (match_data_type e) key of
        Some w \<Rightarrow> (w, [])
      | None \<Rightarrow> (ascii ''unknown'', [NoDataType key]))"

text \<open>
  The path segments that follow the occurrences of the marker \<^verbatim>\<open>shows/\<close> in a key, from
  left to right: each runs up to the next slash or the end of the key.
\<close>

fun marker_segments :: "ustring \<Rightarrow> ustring list" where
  "marker_segments [] = []"
| "marker_segments (c # cs) =
     (if prefix (ascii ''shows/'') (c # cs)
      then takeWhile (\<lambda>x. x \<noteq> ord CHR ''/'') (drop 6 (c # cs)) # marker_segments cs
      else marker_segments cs)"

text \<open>
  The two patterns matching at offset \<open>n\<close> of a key, with the text of the group: the
  reading of the regular expressions that the search is compared with.
\<close>

definition category_match :: "env \<Rightarrow> ustring \<Rightarrow> nat \<Rightarrow> ustring \<Rightarrow> bool" where
  "category_match e key n w =
     (n \<le> length key \<and> w \<noteq> [] \<and> list_all (is_word e) w
      \<and> prefix (ascii ''shows/'' @ w @ ascii ''/'') (drop n key))"

definition date_match :: "env \<Rightarrow> ustring \<Rightarrow> nat \<Rightarrow> ustring \<Rightarrow> bool" where
  "date_match e key n d =
     (n \<le> length key \<and> date_shape e d \<and> prefix (ascii ''dt='' @ d) (drop n key))"

section \<open>Python operations the handler uses\<close>

definition bind_err :: "'e + 'a \<Rightarrow> ('a \<Rightarrow> 'e + 'b) \<Rightarrow> 'e + 'b" where
  "bind_err m f = (case m of Inl err \<Rightarrow> Inl err | Inr x \<Rightarrow> f x)"

fun sequence_err :: "('e + 'a) list \<Rightarrow> 'e + 'a list" where
  "sequence_err [] = Inr []"
| "sequence_err (m # ms) =
     (case m of
        Inl err \<Rightarrow> Inl err
      | Inr x \<Rightarrow> (case sequence_err ms of Inl err \<Rightarrow> Inl err | Inr xs \<Rightarrow> Inr (x # xs)))"

fun truthy :: "pyval \<Rightarrow> bool" where
  "truthy PNone = False"
| "truthy (PBool b) = b"
| "truthy (PInt n) = (n \<noteq> 0)"
| "truthy (PFloat x) = (x \<noteq> 0)"
| "truthy (PStr s) = (s \<noteq> [])"
| "truthy (PList xs) = (xs \<noteq> [])"
| "truthy (PDict d) = (d \<noteq> [])"

text \<open>\<^verbatim>\<open>a or b\<close>\<close>

definition py_or :: "pyval \<Rightarrow> pyval \<Rightarrow> pyval" where
  "py_or a b = (if truthy a then a else b)"

text \<open>\<^verbatim>\<open>d.get(k, default)\<close> on a dict, and on any value: only a dict has \<^verbatim>\<open>get\<close>.\<close>

definition dict_get :: "(string \<times> pyval) list \<Rightarrow> string \<Rightarrow> pyval \<Rightarrow> pyval" where
  "dict_get d k dflt = (case map_of d k of Some v \<Rightarrow> v | None \<Rightarrow> dflt)"

definition py_get :: "pyval \<Rightarrow> string \<Rightarrow> pyval \<Rightarrow> pyerr + pyval" where
  "py_get x k dflt = (case x of PDict d \<Rightarrow> Inr (dict_get d k dflt) | _ \<Rightarrow> Inl AttributeError)"

text \<open>
  \<^verbatim>\<open>len(x)\<close> and \<^verbatim>\<open>for item in x\<close> together: the items of a list, the characters of a
  string, the keys of a dict; every other value raises \<^verbatim>\<open>TypeError\<close> at \<^verbatim>\<open>len\<close>.
\<close>

fun py_items :: "pyval \<Rightarrow> pyerr + pyval list" where
  "py_items (PList xs) = Inr xs"
| "py_items (PStr s) = Inr (map (\<lambda>c. PStr [c]) s)"
| "py_items (PDict d) = Inr (map (\<lambda>kv. PStr (fst kv)) d)"
| "py_items _ = Inl TypeError"

text \<open>
  An integer as a float: below \<open>2 ^ 53\<close> in magnitude it is exact, beyond that it is
  rounded to 53 significant bits, a tie to the even neighbour. An integer that rounds to
  \<open>2 ^ 1024\<close> or beyond has no float.
\<close>

definition round64 :: "int \<Rightarrow> int" where
  "round64 n =
     (if \<bar>n\<bar> < 2 ^ 53 then n
      else let e = nat (bitlen \<bar>n\<bar>) - 53;
               q = \<bar>n\<bar> div 2 ^ e;
               r = \<bar>n\<bar> mod 2 ^ e;
               q' = (if 2 ^ e < 2 * r \<or> (2 * r = 2 ^ e \<and> odd q) then q + 1 else q)
           in sgn n * q' * 2 ^ e)"

definition float_overflow :: int where
  "float_overflow = 2 ^ 1024 - 2 ^ 970"

text \<open>
  \<^verbatim>\<open>float(x)\<close>. An integer without a float raises \<^verbatim>\<open>OverflowError\<close>; a string goes to the
  parser of the environment.
\<close>

fun py_float :: "env \<Rightarrow> pyval \<Rightarrow> pyerr + real" where
  "py_float e PNone = Inl TypeError"
| "py_float e (PBool b) = Inr (if b then 1 else 0)"
| "py_float e (PInt n) =
     (if \<bar>n\<bar> < float_overflow then Inr (real_of_int (round64 n)) else Inl OverflowError)"
| "py_float e (PFloat x) = Inr x"
| "py_float e (PStr s) = (case str_float e s of Some x \<Rightarrow> Inr x | None \<Rightarrow> Inl ValueError)"
| "py_float e (PList xs) = Inl TypeError"
| "py_float e (PDict d) = Inl TypeError"

section \<open>Record Normalizer\<close>

type_synonym row = "(string \<times> pyval) list"

text \<open>
  \<^verbatim>\<open>normalize_show\<close> builds a dict literal; its entries are evaluated in order. On a value
  that is no dict the first \<^verbatim>\<open>raw_show.get\<close> raises \<^verbatim>\<open>AttributeError\<close>; on a dict only
  \<^verbatim>\<open>float(...)\<close> can raise.
\<close>

definition normalize_show :: "env \<Rightarrow> pyval \<Rightarrow> pyerr + row" where
  "normalize_show e raw_show =
     (case raw_show of
        PDict d \<Rightarrow>
          bind_err (py_float e (dict_get d ''vote_average'' (PFloat 0))) (\<lambda>vote_average. Inr
            [(''show_id'', dict_get d ''id'' PNone),
             (''title'', py_or (dict_get d ''name'' PNone) (dict_get d ''original_name'' PNone)),
             (''original_title'', dict_get d ''original_name'' PNone),
             (''vote_average'', PFloat vote_average),
             (''vote_count'', dict_get d ''vote_count'' (PInt 0)),
             (''first_air_date'', dict_get d ''first_air_date'' PNone),
             (''genre_ids'', dict_get d ''genre_ids'' (PList [])),
             (''origin_country'', dict_get d ''origin_country'' (PList [])),
             (''poster_path'', dict_get d ''poster_path'' PNone),
             (''backdrop_path'', dict_get d ''backdrop_path'' PNone),
             (''overview'', dict_get d ''overview'' PNone),
             (''original_language'', dict_get d ''original_language'' PNone),
             (''popularity'', dict_get d ''popularity'' (PFloat 0)),
             (''ingestion_date'', PStr (now_iso e)),
             (''data_type'', PNone)])
      | _ \<Rightarrow> Inl AttributeError)"

section \<open>DataFrames\<close>

text \<open>
  A DataFrame is its column names, in order, and its rows, in index order; a row holds one
  cell for each column.
\<close>

record dataframe =
  columns :: "string list"
  rows :: "row list"

definition cell :: "row \<Rightarrow> string \<Rightarrow> pyval" where
  "cell r c = (case map_of r c of Some v \<Rightarrow> v | None \<Rightarrow> PNone)"

text \<open>
  \<^verbatim>\<open>pd.DataFrame(list_of_dicts)\<close>: the columns are the keys of the dicts in order of first
  appearance, a key that a dict lacks gives a missing value (the dicts of the handler all
  have the same keys); no dicts, no columns.
\<close>

fun union_keys :: "string list \<Rightarrow> row list \<Rightarrow> string list" where
  "union_keys acc [] = acc"
| "union_keys acc (d # ds) = union_keys (acc @ filter (\<lambda>k. k \<notin> set acc) (map fst d)) ds"

definition reindex :: "string list \<Rightarrow> row \<Rightarrow> row" where
  "reindex cs r = map (\<lambda>c. (c, cell r c)) cs"

text \<open>
  The constructor infers the type of each column from its values
  (\<^verbatim>\<open>lib.maybe_convert_objects\<close>). It scans the column top to bottom, noting what it has
  seen: a null, a boolean, a float, an integer, an integer from \<open>2 ^ 63\<close> up, a negative
  integer. Every integer is first turned into a float, which raises \<^verbatim>\<open>OverflowError\<close> when
  it has none. The scan breaks off, and the column stays a column of objects, at a string,
  a list or a dict, and at an integer that fits neither \<^verbatim>\<open>int64\<close> nor \<^verbatim>\<open>uint64\<close> together
  with the integers before it; integers that come after a null are not tested for that.
\<close>

record seen =
  saw_null :: bool
  saw_bool :: bool
  saw_float :: bool
  saw_int :: bool
  saw_uint :: bool
  saw_sint :: bool

fun scan_objects :: "seen \<Rightarrow> pyval list \<Rightarrow> pyerr + seen option" where
  "scan_objects s [] = Inr (Some s)"
| "scan_objects s (PNone # vs) = scan_objects (s\<lparr>saw_null := True\<rparr>) vs"
| "scan_objects s (PBool b # vs) = scan_objects (s\<lparr>saw_bool := True\<rparr>) vs"
| "scan_objects s (PFloat x # vs) = scan_objects (s\<lparr>saw_float := True\<rparr>) vs"
| "scan_objects s (PInt n # vs) =
     (if float_overflow \<le> \<bar>n\<bar> then Inl OverflowError
      else if saw_null s then scan_objects (s\<lparr>saw_int := True\<rparr>) vs
      else if (saw_uint s \<or> (2 ^ 63 \<le> n \<and> n < 2 ^ 64)) \<and> (saw_sint s \<or> n < 0)
              \<or> 2 ^ 64 \<le> n \<or> n < - (2 ^ 63)
      then Inr None
      else scan_objects
             (s\<lparr>saw_int := True, saw_uint := saw_uint s \<or> (2 ^ 63 \<le> n \<and> n < 2 ^ 64),
                saw_sint := saw_sint s \<or> n < 0\<rparr>) vs)"
| "scan_objects s (PStr x # vs) = Inr None"
| "scan_objects s (PList xs # vs) = Inr None"
| "scan_objects s (PDict d # vs) = Inr None"

text \<open>
  The type that comes out of the scan. Booleans alone make a column of booleans, and with
  anything else a column of objects. Numbers make a column of floats when a float or a null
  is among them, else a column of integers. Nulls alone, and no values at all, make a
  column of objects.
\<close>

datatype dtype = Dobject | Dbool | Dint64 | Duint64 | Dfloat64

definition result_dtype :: "seen \<Rightarrow> dtype" where
  "result_dtype s =
     (if saw_bool s then
        (if saw_null s \<or> saw_float s \<or> saw_int s then Dobject else Dbool)
      else if saw_null s then
        (if saw_float s \<or> saw_int s then Dfloat64 else Dobject)
      else if saw_float s then Dfloat64
      else if saw_int s then (if saw_uint s then Duint64 else Dint64)
      else Dobject)"

definition infer_dtype :: "pyval list \<Rightarrow> pyerr + dtype" where
  "infer_dtype vs =
     bind_err
       (scan_objects
          \<lparr>saw_null = False, saw_bool = False, saw_float = False, saw_int = False,
           saw_uint = False, saw_sint = False\<rparr> vs)
       (\<lambda>r. Inr (case r of None \<Rightarrow> Dobject | Some s \<Rightarrow> result_dtype s))"

text \<open>
  A cell of a column of the type inferred: in a column of floats an integer is the float
  it rounds to; every other value stays what it is.
\<close>

fun convert_cell :: "dtype \<Rightarrow> pyval \<Rightarrow> pyval" where
  "convert_cell Dfloat64 (PInt n) = PFloat (real_of_int (round64 n))"
| "convert_cell t v = v"

definition convert_row :: "(string \<times> dtype) list \<Rightarrow> row \<Rightarrow> row" where
  "convert_row cts r = map (\<lambda>ct. (fst ct, convert_cell (snd ct) (cell r (fst ct)))) cts"

definition DataFrame :: "row list \<Rightarrow> pyerr + dataframe" where
  "DataFrame ds =
     (let cs = union_keys [] ds in
      bind_err (sequence_err (map (\<lambda>c. infer_dtype (map (\<lambda>d. cell d c) ds)) cs)) (\<lambda>ts.
      Inr \<lparr>columns = cs, rows = map (convert_row (zip cs ts)) ds\<rparr>))"

text \<open>\<^verbatim>\<open>df[c]\<close>, \<^verbatim>\<open>df[mask]\<close>, \<^verbatim>\<open>df[c] = values\<close> and \<^verbatim>\<open>df[list_of_columns]\<close>.\<close>

definition column :: "dataframe \<Rightarrow> string \<Rightarrow> pyerr + pyval list" where
  "column df c =
     (if c \<in> set (columns df) then Inr (map (\<lambda>r. cell r c) (rows df)) else Inl KeyError)"

definition filter_rows :: "bool list \<Rightarrow> dataframe \<Rightarrow> dataframe" where
  "filter_rows keep df = df\<lparr>rows := map snd (filter fst (zip keep (rows df)))\<rparr>"

definition set_column :: "dataframe \<Rightarrow> string \<Rightarrow> pyval list \<Rightarrow> dataframe" where
  "set_column df c vs =
     \<lparr>columns = (if c \<in> set (columns df) then columns df else columns df @ [c]),
      rows = map (\<lambda>rv. AList.update c (snd rv) (fst rv)) (zip (rows df) vs)\<rparr>"

definition select_columns :: "dataframe \<Rightarrow> string list \<Rightarrow> pyerr + dataframe" where
  "select_columns df cs =
     (if set cs \<subseteq> set (columns df)
      then Inr \<lparr>columns = cs, rows = map (reindex cs) (rows df)\<rparr>
      else Inl KeyError)"

text \<open>
  \<^verbatim>\<open>isna\<close>, and the elementwise comparison of a column with \<open>0\<close>: a missing value compares
  false under every ordering, a number compares by value (a boolean is 0 or 1), anything
  else raises \<^verbatim>\<open>TypeError\<close>.
\<close>

definition isna :: "pyval \<Rightarrow> bool" where
  "isna v = (v = PNone)"

fun compare0 :: "(real \<Rightarrow> bool) \<Rightarrow> pyval \<Rightarrow> pyerr + bool" where
  "compare0 p PNone = Inr False"
| "compare0 p (PBool b) = Inr (p (if b then 1 else 0))"
| "compare0 p (PInt n) = Inr (p (real_of_int n))"
| "compare0 p (PFloat x) = Inr (p x)"
| "compare0 p (PStr s) = Inl TypeError"
| "compare0 p (PList xs) = Inl TypeError"
| "compare0 p (PDict d) = Inl TypeError"

definition count_true :: "bool list \<Rightarrow> int" where
  "count_true bs = int (length (filter (\<lambda>b. b) bs))"

text \<open>
  \<^verbatim>\<open>df.drop_duplicates(subset=[c], keep='first')\<close>. A row is a duplicate when an earlier
  row has an equal value. The hash table of pandas compares the values of the column as
  Python does, and a value that cannot be hashed is compared all the same and raises
  nothing. \<open>hash_key\<close> sends two values to the same key exactly when they are equal:
  numbers by value whatever their type, strings by their characters, lists item by item,
  dicts as sets of entries.
\<close>

datatype hkey =
    HNone
  | HNum real
  | HStr string
  | HList "hkey list"
  | HDict "(string \<times> hkey) fset"

primrec hash_key :: "pyval \<Rightarrow> hkey" where
  "hash_key PNone = HNone"
| "hash_key (PBool b) = HNum (if b then 1 else 0)"
| "hash_key (PInt n) = HNum (real_of_int n)"
| "hash_key (PFloat x) = HNum x"
| "hash_key (PStr s) = HStr s"
| "hash_key (PList xs) = HList (map hash_key xs)"
| "hash_key (PDict d) = HDict (fset_of_list (map (map_prod id hash_key) d))"

fun duplicated :: "hkey list \<Rightarrow> hkey list \<Rightarrow> bool list" where
  "duplicated seen [] = []"
| "duplicated seen (k # ks) = (k \<in> set seen) # duplicated (k # seen) ks"

definition drop_duplicates :: "dataframe \<Rightarrow> string \<Rightarrow> pyerr + dataframe" where
  "drop_duplicates df c =
     bind_err (column df c) (\<lambda>vs.
     Inr (filter_rows (map Not (duplicated [] (map hash_key vs))) df))"

section \<open>Quality Gate\<close>

record checks =
  initial_count :: int
  missing_show_id :: int
  missing_title :: int
  invalid_popularity :: int
  duplicates :: int
  final_count :: int
  failed_count :: int
  pass_rate :: real

definition apply_data_quality_checks :: "dataframe \<Rightarrow> int \<Rightarrow> pyerr + dataframe \<times> checks" where
  "apply_data_quality_checks df initial =
     bind_err (column df ''show_id'') (\<lambda>ids.
     let n_show_id = count_true (map isna ids);
         df1 = filter_rows (map (\<lambda>v. \<not> isna v) ids) df in
     bind_err (column df1 ''title'') (\<lambda>titles.
     let n_title = count_true (map isna titles);
         df2 = filter_rows (map (\<lambda>v. \<not> isna v) titles) df1 in
     bind_err (column df2 ''popularity'') (\<lambda>pops.
     bind_err (sequence_err (map (compare0 (\<lambda>x. x < 0)) pops)) (\<lambda>negative.
     let n_popularity = count_true negative in
     bind_err (sequence_err (map (compare0 (\<lambda>x. 0 \<le> x)) pops)) (\<lambda>non_negative.
     let df3 = filter_rows non_negative df2;
         pre_dedup_count = int (length (rows df3)) in
     bind_err (drop_duplicates df3 ''show_id'') (\<lambda>df4.
     let final = int (length (rows df4)) in
     Inr (df4,
       \<lparr>initial_count = initial,
        missing_show_id = n_show_id,
        missing_title = n_title,
        invalid_popularity = n_popularity,
        duplicates = pre_dedup_count - final,
        final_count = final,
        failed_count = initial - final,
        pass_rate = (if initial > 0 then real_of_int final / real_of_int initial else 0)\<rparr>)))))))"

section \<open>Schema Enforcer\<close>

definition SILVER_SCHEMA :: "(string \<times> string) list" where
  "SILVER_SCHEMA =
     [(''show_id'', ''Int64''),
      (''title'', ''string''),
      (''original_title'', ''string''),
      (''popularity'', ''float64''),
      (''vote_average'', ''float64''),
      (''vote_count'', ''Int64''),
      (''first_air_date'', ''string''),
      (''genre_ids'', ''object''),
      (''origin_country'', ''object''),
      (''poster_path'', ''string''),
      (''backdrop_path'', ''string''),
      (''overview'', ''string''),
      (''original_language'', ''string''),
      (''ingestion_date'', ''string''),
      (''data_type'', ''string'')]"

text \<open>The first loop: a column of the schema that the frame lacks is added, all null.\<close>

fun add_missing :: "dataframe \<Rightarrow> string list \<Rightarrow> dataframe" where
  "add_missing df [] = df"
| "add_missing df (c # cs) =
     add_missing
       (if c \<notin> set (columns df) then set_column df c (replicate (length (rows df)) PNone)
        else df) cs"

text \<open>
  The second loop: a column whose type is one of the three is converted; when the
  conversion raises, the exception is caught, a warning is logged and the column stays.
\<close>

fun cast_columns :: "env \<Rightarrow> (string \<times> string) list \<Rightarrow> dataframe \<times> warning list
    \<Rightarrow> dataframe \<times> warning list" where
  "cast_columns e [] acc = acc"
| "cast_columns e ((c, dtype) # rest) (df, ws) =
     cast_columns e rest
       (if dtype \<in> set [''Int64'', ''float64'', ''string''] then
          (case column df c of
             Inl err \<Rightarrow> (df, ws @ [CastFailed c dtype])
           | Inr vs \<Rightarrow>
               (case astype e dtype vs of
                  None \<Rightarrow> (df, ws @ [CastFailed c dtype])
                | Some vs' \<Rightarrow> (set_column df c vs', ws)))
        else (df, ws))"

definition enforce_schema :: "env \<Rightarrow> dataframe \<Rightarrow> (string \<times> string) list
    \<Rightarrow> pyerr + dataframe \<times> warning list" where
  "enforce_schema e df schema =
     bind_err (select_columns (add_missing df (map fst schema)) (map fst schema)) (\<lambda>df'.
     Inr (cast_columns e schema (df', [])))"

section \<open>Quality Reporter\<close>

record metric =
  MetricName :: string
  Value :: real
  Unit :: string
  Dimensions :: "(string \<times> ustring) list"

definition publish_quality_metrics :: "env \<Rightarrow> checks \<Rightarrow> ustring \<Rightarrow> ustring \<Rightarrow> metric list" where
  "publish_quality_metrics e metrics data_type date =
     (let dims = [(''Environment'', ascii (environment e)), (''DataType'', data_type)] in
      [\<lparr>MetricName = ''DataQualityPassRate'', Value = pass_rate metrics * 100,
         Unit = ''Percent'', Dimensions = dims\<rparr>,
       \<lparr>MetricName = ''RecordsProcessed'', Value = real_of_int (final_count metrics),
         Unit = ''Count'', Dimensions = dims\<rparr>,
       \<lparr>MetricName = ''RecordsFailed'', Value = real_of_int (failed_count metrics),
         Unit = ''Count'', Dimensions = dims\<rparr>])"

section \<open>Batch Orchestrator\<close>

text \<open>
  The loop of \<^verbatim>\<open>process_bronze_file\<close> over the raw records. A record whose normalization
  raises is skipped with a warning; the warning evaluates \<^verbatim>\<open>show.get('id')\<close>, which
  itself raises on a record that is no dict, and nothing catches that.
\<close>

fun normalize_loop :: "env \<Rightarrow> pyval list \<Rightarrow> row list \<times> warning list
    \<Rightarrow> pyerr + row list \<times> warning list" where
  "normalize_loop e [] acc = Inr acc"
| "normalize_loop e (show # rest) (normalized_shows, ws) =
     (case normalize_show e show of
        Inr normalized \<Rightarrow> normalize_loop e rest (normalized_shows @ [normalized], ws)
      | Inl err \<Rightarrow>
          bind_err (py_get show ''id'' PNone) (\<lambda>i.
          normalize_loop e rest (normalized_shows, ws @ [NormalizeFailed i err])))"

text \<open>
  What \<^verbatim>\<open>process_bronze_file\<close> returns and does: the returned dict, the objects written
  to the Silver store, the metrics published, the Quality Report and the warnings logged.
  The function starts from the parsed JSON document; reading the object, writing the output
  and publishing the metrics are taken to succeed.
\<close>

record result =
  records_processed :: int
  quality_pass_rate :: real
  silver_key :: "ustring option"

record outcome =
  returned :: result
  written :: "(ustring \<times> dataframe) list"
  published :: "metric list"
  report :: "checks option"
  warnings :: "warning list"

text \<open>
  \<^verbatim>\<open>process_bronze_file\<close> in three parts. \<open>write_and_report\<close> is its end, from
  \<^verbatim>\<open>extract_partition_date(key)\<close> to the \<^verbatim>\<open>return\<close>: the partition, the write, the metrics
  and the returned dict. \<open>transform_shows\<close> is its middle, from
  \<^verbatim>\<open>initial_count = len(shows)\<close> on: normalize each record, build the frame, run the
  Quality Gate with the count of raw records, enforce the schema.
\<close>

definition write_and_report :: "env \<Rightarrow> ustring \<Rightarrow> checks \<Rightarrow> dataframe \<Rightarrow> warning list \<Rightarrow> outcome" where
  "write_and_report e key quality_metrics df ws =
     (let (partition_date, ws3) = extract_partition_date e key;
          (data_type, ws4) = extract_data_type e key;
          skey = ascii ''silver/shows/'' @ data_type @ ascii ''/dt='' @ partition_date
                   @ ascii ''/data.parquet''
      in \<lparr>returned = \<lparr>records_processed = int (length (rows df)),
                         quality_pass_rate = pass_rate quality_metrics,
                         silver_key = Some skey\<rparr>,
           written = [(skey, df)],
           published = publish_quality_metrics e quality_metrics data_type partition_date,
           report = Some quality_metrics,
           warnings = ws @ ws3 @ ws4\<rparr>)"

definition transform_shows :: "env \<Rightarrow> ustring \<Rightarrow> pyval list \<Rightarrow> pyerr + outcome" where
  "transform_shows e key items =
     (let initial = int (length items) in
      bind_err (normalize_loop e items ([], [])) (\<lambda>(normalized_shows, ws1).
      bind_err (DataFrame normalized_shows) (\<lambda>df0.
      bind_err (apply_data_quality_checks df0 initial) (\<lambda>(df, quality_metrics).
      bind_err (enforce_schema e df SILVER_SCHEMA) (\<lambda>(df', ws2).
      Inr (write_and_report e key quality_metrics df' (ws1 @ ws2)))))))"

definition process_bronze_file :: "env \<Rightarrow> pyval \<Rightarrow> ustring \<Rightarrow> pyerr + outcome" where
  "process_bronze_file e raw_data key =
     bind_err (py_get raw_data ''results'' (PList [])) (\<lambda>shows.
     if \<not> truthy shows then
       Inr \<lparr>returned = \<lparr>records_processed = 0, quality_pass_rate = 0, silver_key = None\<rparr>,
            written = [], published = [], report = None, warnings = [NoShows key]\<rparr>
     else bind_err (py_items shows) (transform_shows e key))"

section \<open>A sample environment\<close>

text \<open>
  One environment on which the model can be run: a clock, a parser for strings of decimal
  digits, and a conversion that turns numbers into floats for \<^verbatim>\<open>float64\<close>, accepts a
  column of integers for \<^verbatim>\<open>Int64\<close> and a column of strings for \<^verbatim>\<open>string\<close> (missing
  values allowed in each), and raises on every other column. Of the character database it
  has the Latin-1 supplement, where the alphanumeric characters are the letters, the
  superscript digits and the fractions and no character is a decimal digit, and the
  Arabic-Indic digits; every other character beyond ASCII is taken to be neither. The
  theorems below hold for every environment; this one serves to run them.
\<close>

fun digits_value :: "nat \<Rightarrow> string \<Rightarrow> nat" where
  "digits_value acc [] = acc"
| "digits_value acc (c # cs) = digits_value (10 * acc + (ord c - 48)) cs"

definition sample_str_float :: "string \<Rightarrow> real option" where
  "sample_str_float s =
     (if s \<noteq> [] \<and> list_all (\<lambda>c. ascii_digit (ord c)) s then Some (real (digits_value 0 s))
      else None)"

definition sample_decimal :: "nat \<Rightarrow> bool" where
  "sample_decimal c = (1632 \<le> c \<and> c \<le> 1641)"

definition sample_alnum :: "nat \<Rightarrow> bool" where
  "sample_alnum c =
     (c \<in> set [170, 178, 179, 181, 185, 186, 188, 189, 190]
      \<or> (192 \<le> c \<and> c \<le> 214) \<or> (216 \<le> c \<and> c \<le> 246) \<or> (248 \<le> c \<and> c \<le> 255)
      \<or> sample_decimal c)"

fun is_int_cell :: "pyval \<Rightarrow> bool" where
  "is_int_cell PNone = True"
| "is_int_cell (PInt n) = True"
| "is_int_cell _ = False"

fun is_str_cell :: "pyval \<Rightarrow> bool" where
  "is_str_cell PNone = True"
| "is_str_cell (PStr s) = True"
| "is_str_cell _ = False"

fun float_cell :: "pyval \<Rightarrow> pyval option" where
  "float_cell PNone = Some PNone"
| "float_cell (PBool b) = Some (PFloat (if b then 1 else 0))"
| "float_cell (PInt n) = Some (PFloat (real_of_int (round64 n)))"
| "float_cell (PFloat x) = Some (PFloat x)"
| "float_cell _ = None"

definition sample_astype :: "string \<Rightarrow> pyval list \<Rightarrow> pyval list option" where
  "sample_astype dtype vs =
     (if dtype = ''float64'' then
        (if list_all (\<lambda>v. float_cell v \<noteq> None) vs then Some (map (\<lambda>v. the (float_cell v)) vs)
         else None)
      else if dtype = ''Int64'' then (if list_all is_int_cell vs then Some vs else None)
      else if dtype = ''string'' then (if list_all is_str_cell vs then Some vs else None)
      else None)"

definition sample_env :: env where
  "sample_env =
     \<lparr>str_float = sample_str_float, astype = sample_astype,
      now_iso = ''2024-03-01T06:00:00'', today = ''2024-03-01'', environment = ''dev'',
      unicode_alnum = sample_alnum, unicode_decimal = sample_decimal\<rparr>"

section \<open>Reading the model\<close>

text \<open>One field of the record that the Normalizer makes of a raw record.\<close>

definition normalized_cell :: "env \<Rightarrow> pyval \<Rightarrow> string \<Rightarrow> pyerr + pyval" where
  "normalized_cell e raw c = bind_err (normalize_show e raw) (\<lambda>r. Inr (cell r c))"

text \<open>
  The three row filters of the Quality Gate as predicates on a row, and the key under which
  \<^verbatim>\<open>drop_duplicates\<close> compares the \<open>show_id\<close> of a row.
\<close>

definition has_show_id :: "row \<Rightarrow> bool" where
  "has_show_id r = (\<not> isna (cell r ''show_id''))"

definition has_title :: "row \<Rightarrow> bool" where
  "has_title r = (\<not> isna (cell r ''title''))"

definition popularity_negative :: "row \<Rightarrow> bool" where
  "popularity_negative r = (compare0 (\<lambda>x. x < 0) (cell r ''popularity'') = Inr True)"

definition popularity_ok :: "row \<Rightarrow> bool" where
  "popularity_ok r = (compare0 (\<lambda>x. 0 \<le> x) (cell r ''popularity'') = Inr True)"

definition eligible :: "row \<Rightarrow> bool" where
  "eligible r = (has_show_id r \<and> has_title r \<and> popularity_ok r)"

definition show_key :: "row \<Rightarrow> hkey" where
  "show_key r = hash_key (cell r ''show_id'')"

text \<open>
  The batch of the scenario of the specification: five raw records, the second without
  \<open>id\<close>, the third with popularity \<open>-1\<close>, the fourth with the \<open>id\<close> of the first.
\<close>

definition scenario_batch :: "pyval list" where
  "scenario_batch =
     [PDict [(''id'', PInt 101), (''name'', PStr ''Alpha''), (''popularity'', PFloat 12.5)],
      PDict [(''name'', PStr ''Beta''), (''popularity'', PFloat 3)],
      PDict [(''id'', PInt 103), (''name'', PStr ''Gamma''), (''popularity'', PFloat (- 1))],
      PDict [(''id'', PInt 101), (''name'', PStr ''Alpha again''), (''popularity'', PFloat 7)],
      PDict [(''id'', PInt 105), (''name'', PStr ''Epsilon''), (''popularity'', PFloat 1)]]"

text \<open>
  The frame that \<^verbatim>\<open>process_bronze_file\<close> hands to the Quality Gate, and the Quality
  Gate run on it: the report, and the titles of the rows that are left.
\<close>

definition normalized_frame :: "env \<Rightarrow> pyval list \<Rightarrow> pyerr + dataframe" where
  "normalized_frame e items =
     bind_err (normalize_loop e items ([], [])) (\<lambda>(normalized_shows, ws).
     DataFrame normalized_shows)"

definition gate_run :: "env \<Rightarrow> pyval list \<Rightarrow> int \<Rightarrow> pyerr + dataframe \<times> checks" where
  "gate_run e items n =
     bind_err (normalized_frame e items) (\<lambda>df. apply_data_quality_checks df n)"

definition gate_report :: "env \<Rightarrow> pyval list \<Rightarrow> int \<Rightarrow> pyerr + checks" where
  "gate_report e items n = bind_err (gate_run e items n) (\<lambda>(df, ch). Inr ch)"

definition gate_titles :: "env \<Rightarrow> pyval list \<Rightarrow> int \<Rightarrow> pyerr + pyval list" where
  "gate_titles e items n =
     bind_err (gate_run e items n) (\<lambda>(df, ch). Inr (map (\<lambda>r. cell r ''title'') (rows df)))"

text \<open>Keeping, of the elements with the same key, the first one.\<close>

fun keep_first :: "('a \<Rightarrow> 'k) \<Rightarrow> 'k list \<Rightarrow> 'a list \<Rightarrow> 'a list" where
  "keep_first f seen [] = []"
| "keep_first f seen (x # xs) =
     (if f x \<in> set seen then keep_first f seen xs else x # keep_first f (f x # seen) xs)"

text \<open>The fields of a normalized record, in the order of the dict literal.\<close>

definition normalized_keys :: "string list" where
  "normalized_keys =
     [''show_id'', ''title'', ''original_title'', ''vote_average'', ''vote_count'',
      ''first_air_date'', ''genre_ids'', ''origin_country'', ''poster_path'', ''backdrop_path'',
      ''overview'', ''original_language'', ''popularity'', ''ingestion_date'', ''data_type'']"

text \<open>
  The batch of the scenario with a sixth record, whose popularity is null, and a batch
  whose first record has a null popularity.
\<close>

definition scenario_null_batch :: "pyval list" where
  "scenario_null_batch =
     scenario_batch
     @ [PDict [(''id'', PInt 106), (''name'', PStr ''Zeta''), (''popularity'', PNone)]]"

definition null_popularity_batch :: "pyval list" where
  "null_popularity_batch =
     [PDict [(''id'', PInt 1), (''name'', PStr ''A''), (''popularity'', PNone)],
      PDict [(''id'', PInt 2), (''name'', PStr ''B''), (''popularity'', PFloat 5)]]"

text \<open>The number of rows of the frame handed to the Quality Gate.\<close>

definition frame_size :: "env \<Rightarrow> pyval list \<Rightarrow> pyerr + int" where
  "frame_size e items =
     bind_err (normalized_frame e items) (\<lambda>df. Inr (int (length (rows df))))"

text \<open>
  The values of a column, top to bottom; the column the Schema Enforcer starts from, all
  null when the frame lacks it; and what the second loop leaves of a column of a declared
  type.
\<close>

definition col_values :: "dataframe \<Rightarrow> string \<Rightarrow> pyval list" where
  "col_values df c = map (\<lambda>r. cell r c) (rows df)"

definition coerce :: "env \<Rightarrow> string \<Rightarrow> pyval list \<Rightarrow> pyval list" where
  "coerce e dtype vs =
     (if dtype \<in> set [''Int64'', ''float64'', ''string'']
      then (case astype e dtype vs of Some vs' \<Rightarrow> vs' | None \<Rightarrow> vs)
      else vs)"

definition source_column :: "dataframe \<Rightarrow> string \<Rightarrow> pyval list" where
  "source_column df c =
     (if c \<in> set (columns df) then col_values df c else replicate (length (rows df)) PNone)"

text \<open>A frame that has exactly the columns \<open>K\<close>, in its header and in every row.\<close>

definition shaped :: "string list \<Rightarrow> dataframe \<Rightarrow> bool" where
  "shaped K df = (columns df = K \<and> (\<forall>r\<in>set (rows df). map fst r = K))"

text \<open>A frame with one canonical column and one column that is not canonical.\<close>

definition small_frame :: dataframe where
  "small_frame =
     \<lparr>columns = [''title'', ''rating''],
      rows = [[(''title'', PStr ''A''), (''rating'', PInt 3)]]\<rparr>"

text \<open>Whether a value is a dict, and a batch of one well-formed record.\<close>

fun is_dict :: "pyval \<Rightarrow> bool" where
  "is_dict (PDict d) = True"
| "is_dict _ = False"

definition one_record :: pyval where
  "one_record = PDict [(''results'', PList [PDict [(''id'', PInt 1), (''name'', PStr ''A'')]])]"

section \<open>Properties of the Partition Resolver\<close>

lemma slash_not_word: "\<not> is_word e (ord CHR ''/'')"
  by (simp add: is_word_def ascii_word_def ascii_digit_def ord_def)

lemma ascii_slash: "ascii ''/'' = [ord CHR ''/'']"
  by (simp add: ascii_def)

lemma length_marker: "length (ascii ''shows/'') = 6"
  by (simp add: ascii_def)

lemma length_date_marker: "length (ascii ''dt='') = 3"
  by (simp add: ascii_def)

lemma prefix_append_drop:
  "prefix (a @ b) s \<longleftrightarrow> prefix a s \<and> prefix b (drop (length a) s)"
proof
  assume "prefix (a @ b) s"
  then obtain r where "s = a @ b @ r" by (auto simp: prefix_def)
  then show "prefix a s \<and> prefix b (drop (length a) s)" by simp
next
  assume h: "prefix a s \<and> prefix b (drop (length a) s)"
  then obtain r where r: "s = a @ r" by (auto simp: prefix_def)
  with h have "prefix b r" by simp
  then obtain t where "r = b @ t" by (auto simp: prefix_def)
  with r have "s = (a @ b) @ t" by simp
  then show "prefix (a @ b) s" unfolding prefix_def by blast
qed

lemma word_segment_Some_iff:
  "word_segment e s = Some w \<longleftrightarrow>
     w \<noteq> [] \<and> list_all (is_word e) w \<and> prefix (w @ ascii ''/'') s"
proof
  assume h: "word_segment e s = Some w"
  then have w: "w = takeWhile (is_word e) s" and ne: "w \<noteq> []"
    and p: "prefix [ord CHR ''/''] (dropWhile (is_word e) s)"
    by (auto simp: word_segment_def Let_def ascii_slash split: if_splits)
  from p obtain r where r: "dropWhile (is_word e) s = ord CHR ''/'' # r"
    by (auto simp: prefix_def)
  have "s = w @ ord CHR ''/'' # r"
    using w r takeWhile_dropWhile_id [of "is_word e" s] by simp
  moreover have "list_all (is_word e) w"
    using w by (auto simp: list_all_iff dest: set_takeWhileD)
  ultimately show "w \<noteq> [] \<and> list_all (is_word e) w \<and> prefix (w @ ascii ''/'') s"
    using ne by (auto simp: prefix_def ascii_slash)
next
  assume h: "w \<noteq> [] \<and> list_all (is_word e) w \<and> prefix (w @ ascii ''/'') s"
  then obtain r where s: "s = w @ ord CHR ''/'' # r" by (auto simp: prefix_def ascii_slash)
  have a: "\<forall>x\<in>set w. is_word e x" using h by (simp add: list_all_iff)
  have "takeWhile (is_word e) s = w"
    unfolding s using a slash_not_word by (simp add: takeWhile_tail)
  moreover have "dropWhile (is_word e) s = ord CHR ''/'' # r"
    unfolding s using a slash_not_word by (simp add: dropWhile_append3)
  ultimately show "word_segment e s = Some w"
    using h by (simp add: word_segment_def Let_def ascii_slash)
qed

lemma word_segment_takeWhile:
  assumes "word_segment e s = Some w"
  shows "takeWhile (\<lambda>x. x \<noteq> ord CHR ''/'') s = w"
proof -
  from assms have w: "list_all (is_word e) w" and p: "prefix (w @ ascii ''/'') s"
    by (simp_all add: word_segment_Some_iff)
  from p obtain r where s: "s = w @ ord CHR ''/'' # r" by (auto simp: prefix_def ascii_slash)
  have "\<forall>x\<in>set w. x \<noteq> ord CHR ''/''" using w slash_not_word by (auto simp: list_all_iff)
  then show ?thesis unfolding s by (simp add: takeWhile_tail)
qed

lemma re_search_None_iff:
  "re_search m s = None \<longleftrightarrow> (\<forall>n\<le>length s. m (drop n s) = None)"
proof (induction s)
  case Nil
  show ?case by simp
next
  case (Cons c cs)
  have split: "(\<forall>n\<le>length (c # cs). m (drop n (c # cs)) = None) \<longleftrightarrow>
      m (c # cs) = None \<and> (\<forall>n\<le>length cs. m (drop n cs) = None)"
  proof
    assume a: "\<forall>n\<le>length (c # cs). m (drop n (c # cs)) = None"
    have "m (c # cs) = None" using a [rule_format, of 0] by simp
    moreover have "\<forall>n\<le>length cs. m (drop n cs) = None"
    proof (intro allI impI)
      fix n assume "n \<le> length cs"
      then show "m (drop n cs) = None" using a [rule_format, of "Suc n"] by simp
    qed
    ultimately show "m (c # cs) = None \<and> (\<forall>n\<le>length cs. m (drop n cs) = None)" by simp
  next
    assume a: "m (c # cs) = None \<and> (\<forall>n\<le>length cs. m (drop n cs) = None)"
    show "\<forall>n\<le>length (c # cs). m (drop n (c # cs)) = None"
    proof (intro allI impI)
      fix n assume "n \<le> length (c # cs)"
      then show "m (drop n (c # cs)) = None" using a by (cases n) auto
    qed
  qed
  show ?case unfolding split using Cons.IH by (cases "m (c # cs)") auto
qed

lemma re_search_Some:
  "re_search m s = Some g \<Longrightarrow>
     \<exists>n\<le>length s. m (drop n s) = Some g \<and> (\<forall>k<n. m (drop k s) = None)"
proof (induction s)
  case Nil
  then show ?case by simp
next
  case (Cons c cs)
  show ?case
  proof (cases "m (c # cs)")
    case (Some v)
    with Cons.prems have "v = g" by simp
    with Some have "m (drop 0 (c # cs)) = Some g \<and> (\<forall>k<0. m (drop k (c # cs)) = None)" by simp
    then show ?thesis by blast
  next
    case None
    with Cons.prems have "re_search m cs = Some g" by simp
    with Cons.IH obtain n where n: "n \<le> length cs" "m (drop n cs) = Some g"
      "\<forall>k<n. m (drop k cs) = None" by blast
    have "\<forall>k<Suc n. m (drop k (c # cs)) = None"
    proof (intro allI impI)
      fix k assume "k < Suc n"
      then show "m (drop k (c # cs)) = None" using None n(3) by (cases k) auto
    qed
    moreover have "Suc n \<le> length (c # cs)" "m (drop (Suc n) (c # cs)) = Some g"
      using n by simp_all
    ultimately show ?thesis by blast
  qed
qed

lemma match_data_type_Some_iff:
  "match_data_type e s = Some w \<longleftrightarrow>
     w \<noteq> [] \<and> list_all (is_word e) w \<and> prefix (ascii ''shows/'' @ w @ ascii ''/'') s"
  using prefix_append_drop [of "ascii ''shows/''" "w @ ascii ''/''" s]
  by (simp add: match_data_type_def word_segment_Some_iff length_marker)

lemma match_date_Some_iff:
  "match_date e s = Some d \<longleftrightarrow> date_shape e d \<and> prefix (ascii ''dt='' @ d) s"
proof -
  have pre: "prefix (ascii ''dt='' @ d) s \<longleftrightarrow> prefix (ascii ''dt='') s \<and> take 10 (drop 3 s) = d"
    if "length d = 10"
  proof -
    have "prefix d (drop 3 s) \<longleftrightarrow> take 10 (drop 3 s) = d"
    proof
      assume "prefix d (drop 3 s)"
      then obtain r where "drop 3 s = d @ r" by (auto simp: prefix_def)
      then show "take 10 (drop 3 s) = d" using that by simp
    next
      assume "take 10 (drop 3 s) = d"
      then have "drop 3 s = d @ drop 10 (drop 3 s)" by (metis append_take_drop_id)
      then show "prefix d (drop 3 s)" unfolding prefix_def by blast
    qed
    with prefix_append_drop [of "ascii ''dt=''" d s] show ?thesis
      by (simp add: length_date_marker)
  qed
  show ?thesis
  proof (cases "date_shape e d")
    case True
    then have "length d = 10" by (simp add: date_shape_def)
    from pre [OF this] True show ?thesis unfolding match_date_def by auto
  next
    case False
    then show ?thesis unfolding match_date_def by auto
  qed
qed

lemma marker_segments_Cons:
  "marker_segments (c # cs) =
     (if prefix (ascii ''shows/'') (c # cs)
      then takeWhile (\<lambda>x. x \<noteq> ord CHR ''/'') (drop 6 (c # cs)) # marker_segments cs
      else marker_segments cs)"
  by (rule marker_segments.simps)

lemma no_word_segment:
  assumes "list_all (\<lambda>seg. \<exists>c\<in>set seg. \<not> is_word e c) (marker_segments key)"
  shows "re_search (match_data_type e) key = None"
  using assms
proof (induction key)
  case Nil
  show ?case by (simp add: match_data_type_def ascii_def)
next
  case (Cons c cs)
  let ?bad = "\<lambda>seg. \<exists>c\<in>set seg. \<not> is_word e c"
  have step: "match_data_type e (c # cs) = None \<and> list_all ?bad (marker_segments cs)"
  proof (cases "prefix (ascii ''shows/'') (c # cs)")
    case False
    then have "marker_segments (c # cs) = marker_segments cs"
      by (simp only: marker_segments_Cons if_False)
    moreover have "match_data_type e (c # cs) = None"
      using False unfolding match_data_type_def by (simp only: if_False)
    ultimately show ?thesis using Cons.prems by simp
  next
    case True
    then have "marker_segments (c # cs) =
        takeWhile (\<lambda>x. x \<noteq> ord CHR ''/'') (drop 6 (c # cs)) # marker_segments cs"
      by (simp only: marker_segments_Cons if_True)
    with Cons.prems have bad: "?bad (takeWhile (\<lambda>x. x \<noteq> ord CHR ''/'') (drop 6 (c # cs)))"
      and rest: "list_all ?bad (marker_segments cs)"
      by simp_all
    have "match_data_type e (c # cs) = None"
    proof (rule ccontr)
      assume "match_data_type e (c # cs) \<noteq> None"
      then obtain w where w: "word_segment e (drop 6 (c # cs)) = Some w"
        using True unfolding match_data_type_def by (auto simp only: if_True)
      then have "takeWhile (\<lambda>x. x \<noteq> ord CHR ''/'') (drop 6 (c # cs)) = w"
        by (rule word_segment_takeWhile)
      moreover have "list_all (is_word e) w" using w by (simp add: word_segment_Some_iff)
      ultimately show False using bad by (auto simp: list_all_iff)
    qed
    with rest show ?thesis by simp
  qed
  then show ?case using Cons.IH by (simp only: re_search.simps option.case)
qed

lemma extract_data_type_cases:
  "(\<exists>n w. category_match e key n w \<and> (\<forall>m<n. \<forall>v. \<not> category_match e key m v)
        \<and> extract_data_type e key = (w, []))
   \<or> ((\<forall>n v. \<not> category_match e key n v)
        \<and> extract_data_type e key = (ascii ''unknown'', [NoDataType key]))"
proof (cases "re_search (match_data_type e) key")
  case None
  then have "\<forall>n v. \<not> category_match e key n v"
    unfolding re_search_None_iff category_match_def
    by (metis match_data_type_Some_iff option.distinct(1))
  with None show ?thesis by (simp add: extract_data_type_def)
next
  case (Some w)
  from re_search_Some [OF Some] obtain n where n: "n \<le> length key"
    "match_data_type e (drop n key) = Some w"
    "\<forall>k<n. match_data_type e (drop k key) = None"
    by blast
  have "category_match e key n w" using n(1,2)
    by (simp add: category_match_def match_data_type_Some_iff)
  moreover have "\<forall>m<n. \<forall>v. \<not> category_match e key m v"
    using n(3) unfolding category_match_def
    by (metis match_data_type_Some_iff option.distinct(1))
  ultimately show ?thesis using Some by (auto simp: extract_data_type_def)
qed

lemma extract_partition_date_cases:
  "(\<exists>n d. date_match e key n d \<and> (\<forall>m<n. \<forall>v. \<not> date_match e key m v)
        \<and> extract_partition_date e key = (d, []))
   \<or> ((\<forall>n v. \<not> date_match e key n v)
        \<and> extract_partition_date e key = (ascii (today e), [NoDate key]))"
proof (cases "re_search (match_date e) key")
  case None
  then have "\<forall>n v. \<not> date_match e key n v"
    unfolding re_search_None_iff date_match_def
    by (metis match_date_Some_iff option.distinct(1))
  with None show ?thesis by (simp add: extract_partition_date_def)
next
  case (Some d)
  from re_search_Some [OF Some] obtain n where n: "n \<le> length key"
    "match_date e (drop n key) = Some d" "\<forall>k<n. match_date e (drop k key) = None"
    by blast
  have "date_match e key n d" using n(1,2)
    by (simp add: date_match_def match_date_Some_iff)
  moreover have "\<forall>m<n. \<forall>v. \<not> date_match e key m v"
    using n(3) unfolding date_match_def
    by (metis match_date_Some_iff option.distinct(1))
  ultimately show ?thesis using Some by (auto simp: extract_partition_date_def)
qed

lemmas resolver_eval =
  extract_data_type_def extract_partition_date_def match_data_type_def match_date_def
  word_segment_def date_shape_def is_word_def is_digit_def ascii_word_def ascii_digit_def
  ascii_def ord_def

lemmas sample_database = sample_env_def sample_alnum_def sample_decimal_def

text \<open>
  C5, as amended. For every key the resolver returns a pair of strings, and the category
  is never empty. The category is the group of the leftmost match of \<^verbatim>\<open>shows/(\w+)/\<close>: a
  non-empty run of word characters between the marker and the next slash; when the pattern
  matches nowhere it is \<^verbatim>\<open>unknown\<close>, with a warning. The date is the group of the leftmost
  match of \<^verbatim>\<open>dt=(\d{4}-\d{2}-\d{2})\<close>; when there is none it is the current date, with a
  warning. The key of the scenario gives \<^verbatim>\<open>trending\<close> and \<^verbatim>\<open>2024-03-01\<close>. The key is any
  list of code points, and the character database any.
\<close>

theorem partition_resolver:
  "((\<exists>n w. category_match e key n w \<and> (\<forall>m<n. \<forall>v. \<not> category_match e key m v)
        \<and> extract_data_type e key = (w, []))
     \<or> ((\<forall>n v. \<not> category_match e key n v)
        \<and> extract_data_type e key = (ascii ''unknown'', [NoDataType key])))
   \<and> ((\<exists>n d. date_match e key n d \<and> (\<forall>m<n. \<forall>v. \<not> date_match e key m v)
        \<and> extract_partition_date e key = (d, []))
     \<or> ((\<forall>n v. \<not> date_match e key n v)
        \<and> extract_partition_date e key = (ascii (today e), [NoDate key])))
   \<and> fst (extract_data_type e key) \<noteq> []
   \<and> extract_data_type e (ascii ''.../shows/trending/dt=2024-03-01/x.json'')
       = (ascii ''trending'', [])
   \<and> extract_partition_date e (ascii ''.../shows/trending/dt=2024-03-01/x.json'')
       = (ascii ''2024-03-01'', [])"
proof -
  have "fst (extract_data_type e key) \<noteq> []"
    using extract_data_type_cases [of e key] by (auto simp: category_match_def ascii_def)
  moreover have "extract_data_type e (ascii ''.../shows/trending/dt=2024-03-01/x.json'')
      = (ascii ''trending'', [])"
    by (simp add: resolver_eval)
  moreover have "extract_partition_date e (ascii ''.../shows/trending/dt=2024-03-01/x.json'')
      = (ascii ''2024-03-01'', [])"
    by (simp add: resolver_eval)
  ultimately show ?thesis
    using extract_data_type_cases [of e key] extract_partition_date_cases [of e key] by blast
qed

text \<open>
  The resolver on a key of the Bronze store that has a category and no date, and on a key
  whose category has a letter beyond ASCII.
\<close>

theorem partition_resolver_witness:
  "category_match sample_env (ascii ''bronze/tmdb/shows/popular_shows/x.json'') 12
     (ascii ''popular_shows'')
   \<and> extract_data_type sample_env (ascii ''bronze/tmdb/shows/popular_shows/x.json'')
       = (ascii ''popular_shows'', [])
   \<and> extract_partition_date sample_env (ascii ''bronze/tmdb/shows/popular_shows/x.json'')
       = (ascii ''2024-03-01'', [NoDate (ascii ''bronze/tmdb/shows/popular_shows/x.json'')])
   \<and> extract_data_type sample_env (ascii ''bronze/shows/caf'' @ [233] @ ascii ''/x.json'')
       = (ascii ''caf'' @ [233], [])"
  using partition_resolver [of sample_env "ascii ''bronze/tmdb/shows/popular_shows/x.json''"]
  by (simp add: resolver_eval category_match_def sample_database)

text \<open>
  C5 as stated fails: the path segment after the marker is \<^verbatim>\<open>airing-today\<close>, it is
  present, and the category returned is \<^verbatim>\<open>unknown\<close>.
\<close>

theorem category_segment_counterexample:
  "fst (extract_data_type sample_env
          (ascii ''bronze/tmdb/shows/'' @ ascii ''airing-today'' @ ascii ''/dt=2024-03-01/x.json''))
     = ascii ''unknown''
   \<and> fst (extract_data_type sample_env
          (ascii ''bronze/tmdb/shows/'' @ ascii ''airing-today'' @ ascii ''/dt=2024-03-01/x.json''))
     \<noteq> ascii ''airing-today''"
  by (simp add: resolver_eval sample_database)

text \<open>
  C10, as amended. When a key has the marker \<^verbatim>\<open>shows/\<close> and the path segment after every
  occurrence of it contains a character that is no word character, the category is the
  sentinel \<^verbatim>\<open>unknown\<close>. A character of ASCII is no word character exactly when it is
  outside \<^verbatim>\<open>[A-Za-z0-9_]\<close>.
\<close>

theorem non_word_segment_unknown:
  assumes "marker_segments key \<noteq> []"
    and "list_all (\<lambda>seg. \<exists>c\<in>set seg. \<not> is_word e c) (marker_segments key)"
  shows "extract_data_type e key = (ascii ''unknown'', [NoDataType key])
    \<and> (\<forall>c<128. is_word e c = ascii_word c)"
  using no_word_segment [OF assms(2)]
  by (simp add: extract_data_type_def is_word_def)

text \<open>A key with one marker, followed by a hyphenated segment.\<close>

theorem non_word_segment_unknown_witness:
  "marker_segments (ascii ''bronze/tmdb/shows/airing-today/dt=2024-03-01/x.json'')
     = [ascii ''airing-today'']
   \<and> \<not> is_word sample_env (ord CHR ''-'')
   \<and> extract_data_type sample_env (ascii ''bronze/tmdb/shows/airing-today/dt=2024-03-01/x.json'')
       = (ascii ''unknown'',
          [NoDataType (ascii ''bronze/tmdb/shows/airing-today/dt=2024-03-01/x.json'')])"
proof -
  let ?key = "ascii ''bronze/tmdb/shows/airing-today/dt=2024-03-01/x.json''"
  have m: "marker_segments ?key = [ascii ''airing-today'']"
    by (simp add: ascii_def ord_def)
  have w: "\<not> is_word sample_env (ord CHR ''-'')"
    by (simp add: is_word_def ascii_word_def ascii_digit_def ord_def)
  have "ord CHR ''-'' \<in> set (ascii ''airing-today'')" by (simp add: ascii_def)
  with w have b: "list_all (\<lambda>seg. \<exists>c\<in>set seg. \<not> is_word sample_env c) (marker_segments ?key)"
    unfolding m by auto
  have n: "marker_segments ?key \<noteq> []" unfolding m by simp
  show ?thesis using m w non_word_segment_unknown [OF n b] by simp
qed

text \<open>
  C10 as stated fails twice. The segment after the first marker has a hyphen, and the
  search goes on to a later marker and returns its segment. And a segment with a letter
  beyond ASCII, which is outside \<^verbatim>\<open>[A-Za-z0-9_]\<close>, is a run of word characters and is
  returned.
\<close>

theorem first_marker_counterexample:
  "marker_segments (ascii ''bronze/shows/airing-today/shows/trending/x.json'')
     = [ascii ''airing-today'', ascii ''trending'']
   \<and> \<not> ascii_word (ord CHR ''-'')
   \<and> fst (extract_data_type sample_env (ascii ''bronze/shows/airing-today/shows/trending/x.json''))
       = ascii ''trending''
   \<and> marker_segments (ascii ''bronze/shows/caf'' @ [233] @ ascii ''/x.json'')
       = [ascii ''caf'' @ [233]]
   \<and> \<not> ascii_word 233
   \<and> fst (extract_data_type sample_env (ascii ''bronze/shows/caf'' @ [233] @ ascii ''/x.json''))
       = ascii ''caf'' @ [233]"
  by (simp add: resolver_eval sample_database)

section \<open>Properties of the Record Normalizer\<close>

lemmas normalize_eval =
  normalize_show_def normalized_cell_def bind_err_def dict_get_def cell_def py_or_def

text \<open>
  C2, as amended. For a raw record that is a map, \<open>vote_average\<close> of the normalized record
  is a float: 0.0 when the raw field is absent, the float of the raw value when
  \<^verbatim>\<open>float\<close> converts it. When the raw value is present and \<^verbatim>\<open>float\<close> raises on it, the
  Normalizer raises that error and gives no default. \<open>popularity\<close> is 0.0 when the raw
  field is absent.
\<close>

theorem normalizer_floats:
  "(normalize_show e (PDict d) = Inr r \<longrightarrow> (\<exists>x. cell r ''vote_average'' = PFloat x))
   \<and> (map_of d ''vote_average'' = None \<longrightarrow>
        normalized_cell e (PDict d) ''vote_average'' = Inr (PFloat 0))
   \<and> (map_of d ''vote_average'' = Some v \<and> py_float e v = Inr x \<longrightarrow>
        normalized_cell e (PDict d) ''vote_average'' = Inr (PFloat x))
   \<and> (map_of d ''vote_average'' = Some v \<and> py_float e v = Inl err \<longrightarrow>
        normalize_show e (PDict d) = Inl err)
   \<and> (map_of d ''popularity'' = None \<and> normalize_show e (PDict d) = Inr r \<longrightarrow>
        cell r ''popularity'' = PFloat 0)"
  by (auto simp: normalize_show_def normalized_cell_def bind_err_def dict_get_def cell_def
      split: sum.splits)

text \<open>
  Three raw records: an integer \<open>vote_average\<close> and no \<open>popularity\<close>; no
  \<open>vote_average\<close>; a list as \<open>vote_average\<close>.
\<close>

theorem normalizer_floats_witness:
  "map_of [(''id'', PInt 1), (''vote_average'', PInt 7)] ''popularity'' = None
   \<and> map_of [(''id'', PInt 1), (''vote_average'', PInt 7)] ''vote_average'' = Some (PInt 7)
   \<and> py_float sample_env (PInt 7) = Inr 7
   \<and> normalized_cell sample_env (PDict [(''id'', PInt 1), (''vote_average'', PInt 7)])
        ''vote_average'' = Inr (PFloat 7)
   \<and> normalized_cell sample_env (PDict [(''id'', PInt 1), (''vote_average'', PInt 7)])
        ''popularity'' = Inr (PFloat 0)
   \<and> map_of [(''id'', PInt 1)] ''vote_average'' = None
   \<and> normalized_cell sample_env (PDict [(''id'', PInt 1)]) ''vote_average'' = Inr (PFloat 0)
   \<and> map_of [(''vote_average'', PList [])] ''vote_average'' = Some (PList [])
   \<and> py_float sample_env (PList []) = Inl TypeError
   \<and> normalize_show sample_env (PDict [(''vote_average'', PList [])]) = Inl TypeError"
  using normalizer_floats [of sample_env "[(''id'', PInt 1), (''vote_average'', PInt 7)]" _ "PInt 7" 7]
    normalizer_floats [of sample_env "[(''id'', PInt 1)]"]
    normalizer_floats [of sample_env "[(''vote_average'', PList [])]" _ "PList []" _ TypeError]
  by (simp add: normalize_eval float_overflow_def round64_def)

text \<open>
  C2 as stated fails: a \<open>vote_average\<close> that is null or a non-numeric string makes the
  Normalizer raise, and a \<open>popularity\<close> that is a string or an integer is passed on as
  it is, neither 0.0 nor a float.
\<close>

theorem normalizer_default_counterexample:
  "normalize_show sample_env
     (PDict [(''id'', PInt 1), (''name'', PStr ''A''), (''vote_average'', PNone)]) = Inl TypeError
   \<and> normalize_show sample_env
     (PDict [(''id'', PInt 1), (''name'', PStr ''A''), (''vote_average'', PStr ''n/a'')])
       = Inl ValueError
   \<and> normalized_cell sample_env
     (PDict [(''id'', PInt 1), (''name'', PStr ''A''), (''popularity'', PStr ''high'')])
       ''popularity'' = Inr (PStr ''high'')
   \<and> normalized_cell sample_env
     (PDict [(''id'', PInt 1), (''name'', PStr ''A''), (''popularity'', PInt 3)])
       ''popularity'' = Inr (PInt 3)"
  by (simp add: normalize_eval sample_env_def sample_str_float_def ascii_digit_def ord_def)

section \<open>Properties of the Quality Gate\<close>

lemma select_map: "map snd (filter fst (zip (map P xs) xs)) = filter P xs"
  by (induction xs) auto

lemma count_true_map: "count_true (map P xs) = int (length (filter P xs))"
  by (induction xs) (auto simp: count_true_def)

lemma sequence_err_Inr:
  "sequence_err (map g xs) = Inr bs \<Longrightarrow> map g xs = map Inr bs"
proof (induction xs arbitrary: bs)
  case Nil
  then show ?case by simp
next
  case (Cons x xs)
  then show ?case by (auto split: sum.splits)
qed

lemma select_results:
  assumes "map g xs = map Inr bs"
  shows "map snd (filter fst (zip bs xs)) = filter (\<lambda>x. g x = Inr True) xs"
  using assms
proof (induction xs arbitrary: bs)
  case Nil
  then show ?case by simp
next
  case (Cons x xs)
  then obtain b bs' where bs: "bs = b # bs'" by (cases bs) auto
  with Cons.prems have "g x = Inr b" "map g xs = map Inr bs'" by simp_all
  with Cons.IH [of bs'] bs show ?case by auto
qed

lemma count_results:
  assumes "map g xs = map Inr bs"
  shows "count_true bs = int (length (filter (\<lambda>x. g x = Inr True) xs))"
  using assms
proof (induction xs arbitrary: bs)
  case Nil
  then show ?case by (simp add: count_true_def)
next
  case (Cons x xs)
  then obtain b bs' where bs: "bs = b # bs'" by (cases bs) auto
  with Cons.prems have "g x = Inr b" "map g xs = map Inr bs'" by simp_all
  with Cons.IH [of bs'] bs show ?case by (auto simp: count_true_def)
qed

lemma keep_first_set:
  "set s1 = set s2 \<Longrightarrow> keep_first f s1 xs = keep_first f s2 xs"
proof (induction xs arbitrary: s1 s2)
  case Nil
  show ?case by simp
next
  case (Cons x xs)
  have "keep_first f (f x # s1) xs = keep_first f (f x # s2) xs"
    using Cons.prems by (intro Cons.IH) simp
  moreover have "keep_first f s1 xs = keep_first f s2 xs"
    using Cons.prems by (rule Cons.IH)
  ultimately show ?case using Cons.prems by simp
qed

lemma select_duplicated:
  "map snd (filter fst (zip (map Not (duplicated seen (map f xs))) xs)) = keep_first f seen xs"
proof (induction xs arbitrary: seen)
  case Nil
  show ?case by simp
next
  case (Cons x xs)
  note ih = Cons.IH [of "f x # seen"]
  show ?case
  proof (cases "f x \<in> set seen")
    case True
    then have "set (f x # seen) = set seen" by auto
    from keep_first_set [OF this, of f xs] ih True show ?thesis by simp
  next
    case False
    with ih show ?thesis by simp
  qed
qed

lemma subseq_keep_first: "subseq (keep_first f seen xs) xs"
  by (induction xs arbitrary: seen) auto

lemma keys_keep_first:
  "x \<in> set (keep_first f seen xs) \<Longrightarrow> f x \<notin> set seen"
proof (induction xs arbitrary: seen)
  case Nil
  then show ?case by simp
next
  case (Cons y ys)
  show ?case
  proof (cases "f y \<in> set seen")
    case True
    with Cons.prems have "x \<in> set (keep_first f seen ys)" by simp
    then show ?thesis by (rule Cons.IH)
  next
    case False
    with Cons.prems have "x = y \<or> x \<in> set (keep_first f (f y # seen) ys)" by simp
    then show ?thesis
    proof
      assume "x = y"
      with False show ?thesis by simp
    next
      assume "x \<in> set (keep_first f (f y # seen) ys)"
      from Cons.IH [OF this] show ?thesis by simp
    qed
  qed
qed

lemma distinct_keep_first: "distinct (map f (keep_first f seen xs))"
proof (induction xs arbitrary: seen)
  case Nil
  show ?case by simp
next
  case (Cons x xs)
  show ?case
  proof (cases "f x \<in> set seen")
    case True
    then show ?thesis using Cons.IH by simp
  next
    case False
    have "f x \<notin> set (map f (keep_first f (f x # seen) xs))"
    proof
      assume "f x \<in> set (map f (keep_first f (f x # seen) xs))"
      then obtain y where y: "y \<in> set (keep_first f (f x # seen) xs)" "f y = f x" by auto
      from keys_keep_first [OF y(1)] y(2) show False by simp
    qed
    with False show ?thesis using Cons.IH by simp
  qed
qed

lemma find_keep_first:
  "find (\<lambda>x. f x = k) (keep_first f seen xs)
     = (if k \<in> set seen then None else find (\<lambda>x. f x = k) xs)"
proof (induction xs arbitrary: seen)
  case Nil
  show ?case by simp
next
  case (Cons x xs)
  show ?case using Cons.IH by auto
qed

lemma row_predicates:
  "has_show_id = (\<lambda>r. \<not> isna (cell r ''show_id''))"
  "has_title = (\<lambda>r. \<not> isna (cell r ''title''))"
  "popularity_ok = (\<lambda>r. compare0 (\<lambda>x. 0 \<le> x) (cell r ''popularity'') = Inr True)"
  "popularity_negative = (\<lambda>r. compare0 (\<lambda>x. x < 0) (cell r ''popularity'') = Inr True)"
  "show_key = (\<lambda>r. hash_key (cell r ''show_id''))"
  "eligible = (\<lambda>r. has_show_id r \<and> has_title r \<and> popularity_ok r)"
  by (rule ext, simp add: has_show_id_def has_title_def popularity_ok_def
      popularity_negative_def show_key_def eligible_def)+

lemma columns_filter_rows [simp]: "columns (filter_rows keep df) = columns df"
  by (simp add: filter_rows_def)

lemma rows_filter_rows [simp]:
  "rows (filter_rows keep df) = map snd (filter fst (zip keep (rows df)))"
  by (simp add: filter_rows_def)

lemma column_Inr: "column df c = Inr vs \<Longrightarrow> vs = map (\<lambda>r. cell r c) (rows df)"
  by (auto simp: column_def split: if_splits)

lemma bind_err_Inr: "bind_err m f = Inr y \<longleftrightarrow> (\<exists>x. m = Inr x \<and> f x = Inr y)"
  by (cases m) (auto simp: bind_err_def)

lemma drop_duplicates_Inr:
  assumes "drop_duplicates df ''show_id'' = Inr df'"
  shows "rows df' = keep_first show_key [] (rows df) \<and> columns df' = columns df"
proof -
  from assms obtain vs where vs: "column df ''show_id'' = Inr vs"
    and df': "df' = filter_rows (map Not (duplicated [] (map hash_key vs))) df"
    by (auto simp: drop_duplicates_def bind_err_Inr)
  have "map hash_key vs = map show_key (rows df)"
    using column_Inr [OF vs] by (simp add: row_predicates comp_def)
  with select_duplicated [of "[]" show_key "rows df"] df' show ?thesis by simp
qed

lemma gate_rows:
  assumes "apply_data_quality_checks df n = Inr (df', ch)"
  shows "rows df' = keep_first show_key [] (filter eligible (rows df))"
    and "columns df' = columns df"
    and "missing_show_id ch = int (length (filter (\<lambda>r. \<not> has_show_id r) (rows df)))"
    and "missing_title ch = int (length (filter (\<lambda>r. \<not> has_title r) (filter has_show_id (rows df))))"
    and "invalid_popularity ch
       = int (length (filter popularity_negative (filter has_title (filter has_show_id (rows df)))))"
    and "duplicates ch = int (length (filter eligible (rows df))) - int (length (rows df'))"
    and "final_count ch = int (length (rows df'))"
    and "initial_count ch = n"
    and "failed_count ch = n - final_count ch"
    and "pass_rate ch = (if n > 0 then real_of_int (final_count ch) / real_of_int n else 0)"
    and "\<forall>r\<in>set (filter has_title (filter has_show_id (rows df))).
           (\<exists>a. compare0 (\<lambda>x. x < 0) (cell r ''popularity'') = Inr a)
           \<and> (\<exists>b. compare0 (\<lambda>x. 0 \<le> x) (cell r ''popularity'') = Inr b)"
proof -
  let ?R = "rows df"
  let ?R1 = "filter has_show_id ?R"
  let ?R2 = "filter has_title ?R1"
  let ?R3 = "filter popularity_ok ?R2"
  from assms obtain ids where ids: "column df ''show_id'' = Inr ids"
    by (auto simp: apply_data_quality_checks_def bind_err_Inr)
  define df1 where "df1 = filter_rows (map (\<lambda>v. \<not> isna v) ids) df"
  from assms ids obtain titles where titles: "column df1 ''title'' = Inr titles"
    by (auto simp: apply_data_quality_checks_def bind_err_Inr Let_def df1_def)
  define df2 where "df2 = filter_rows (map (\<lambda>v. \<not> isna v) titles) df1"
  from assms ids titles obtain pops where pops: "column df2 ''popularity'' = Inr pops"
    by (auto simp: apply_data_quality_checks_def bind_err_Inr Let_def df1_def df2_def)
  from assms ids titles pops obtain neg where
    neg: "sequence_err (map (compare0 (\<lambda>x. x < 0)) pops) = Inr neg"
    by (auto simp: apply_data_quality_checks_def bind_err_Inr Let_def df1_def df2_def)
  from assms ids titles pops neg obtain nonneg where
    nonneg: "sequence_err (map (compare0 (\<lambda>x. 0 \<le> x)) pops) = Inr nonneg"
    by (auto simp: apply_data_quality_checks_def bind_err_Inr Let_def df1_def df2_def)
  define df3 where "df3 = filter_rows nonneg df2"
  from assms ids titles pops neg nonneg have dd: "drop_duplicates df3 ''show_id'' = Inr df'"
    and ch: "ch = \<lparr>initial_count = n,
        missing_show_id = count_true (map isna ids),
        missing_title = count_true (map isna titles),
        invalid_popularity = count_true neg,
        duplicates = int (length (rows df3)) - int (length (rows df')),
        final_count = int (length (rows df')),
        failed_count = n - int (length (rows df')),
        pass_rate = (if n > 0 then real_of_int (int (length (rows df'))) / real_of_int n else 0)\<rparr>"
    by (auto simp: apply_data_quality_checks_def bind_err_Inr Let_def df1_def df2_def df3_def)
  have ids_eq: "ids = map (\<lambda>r. cell r ''show_id'') ?R" using column_Inr [OF ids] .
  have r1: "rows df1 = ?R1"
    unfolding df1_def ids_eq using select_map [of has_show_id ?R]
    by (simp add: row_predicates comp_def)
  have titles_eq: "titles = map (\<lambda>r. cell r ''title'') ?R1"
    using column_Inr [OF titles] r1 by simp
  have r2: "rows df2 = ?R2"
    unfolding df2_def titles_eq using select_map [of has_title ?R1] r1
    by (simp add: row_predicates(2) comp_def)
  have pops_eq: "pops = map (\<lambda>r. cell r ''popularity'') ?R2"
    using column_Inr [OF pops] r2 by simp
  have neg_eq: "map (\<lambda>r. compare0 (\<lambda>x. x < 0) (cell r ''popularity'')) ?R2 = map Inr neg"
    using sequence_err_Inr [OF neg] pops_eq by (simp add: comp_def)
  have nonneg_eq: "map (\<lambda>r. compare0 (\<lambda>x. 0 \<le> x) (cell r ''popularity'')) ?R2 = map Inr nonneg"
    using sequence_err_Inr [OF nonneg] pops_eq by (simp add: comp_def)
  have r3: "rows df3 = ?R3"
    unfolding df3_def using select_results [OF nonneg_eq] r2
    by (simp add: row_predicates(3))
  have elig: "?R3 = filter eligible ?R"
    by (simp add: row_predicates(6))
  show "rows df' = keep_first show_key [] (filter eligible (rows df))"
    using drop_duplicates_Inr [OF dd] r3 elig by simp
  show "columns df' = columns df"
    using drop_duplicates_Inr [OF dd] by (simp add: df3_def df2_def df1_def)
  show "missing_show_id ch = int (length (filter (\<lambda>r. \<not> has_show_id r) (rows df)))"
    using ch ids_eq count_true_map [of "\<lambda>r. \<not> has_show_id r" ?R]
    by (simp add: row_predicates(1) comp_def)
  show "missing_title ch = int (length (filter (\<lambda>r. \<not> has_title r) (filter has_show_id (rows df))))"
    using ch titles_eq count_true_map [of "\<lambda>r. \<not> has_title r" ?R1]
    by (simp add: row_predicates(2) comp_def)
  show "invalid_popularity ch
       = int (length (filter popularity_negative (filter has_title (filter has_show_id (rows df)))))"
    using ch count_results [OF neg_eq] by (simp add: row_predicates(4))
  show "duplicates ch = int (length (filter eligible (rows df))) - int (length (rows df'))"
    using ch r3 elig by simp
  show "final_count ch = int (length (rows df'))" using ch by simp
  show "initial_count ch = n" using ch by simp
  show "failed_count ch = n - final_count ch" using ch by simp
  show "pass_rate ch = (if n > 0 then real_of_int (final_count ch) / real_of_int n else 0)"
    using ch by simp
  show "\<forall>r\<in>set (filter has_title (filter has_show_id (rows df))).
           (\<exists>a. compare0 (\<lambda>x. x < 0) (cell r ''popularity'') = Inr a)
           \<and> (\<exists>b. compare0 (\<lambda>x. 0 \<le> x) (cell r ''popularity'') = Inr b)"
  proof
    fix r assume r: "r \<in> set ?R2"
    then have "compare0 (\<lambda>x. x < 0) (cell r ''popularity'')
        \<in> set (map (\<lambda>r. compare0 (\<lambda>x. x < 0) (cell r ''popularity'')) ?R2)" by simp
    then have a: "\<exists>a. compare0 (\<lambda>x. x < 0) (cell r ''popularity'') = Inr a"
      unfolding neg_eq by auto
    from r have "compare0 (\<lambda>x. 0 \<le> x) (cell r ''popularity'')
        \<in> set (map (\<lambda>r. compare0 (\<lambda>x. 0 \<le> x) (cell r ''popularity'')) ?R2)" by simp
    then have "\<exists>b. compare0 (\<lambda>x. 0 \<le> x) (cell r ''popularity'') = Inr b"
      unfolding nonneg_eq by auto
    with a show "(\<exists>a. compare0 (\<lambda>x. x < 0) (cell r ''popularity'') = Inr a)
           \<and> (\<exists>b. compare0 (\<lambda>x. 0 \<le> x) (cell r ''popularity'') = Inr b)" by simp
  qed
qed

section \<open>Properties of the frame handed to the Quality Gate\<close>

lemma bind_err_simps:
  "bind_err (Inr x) f = f x"
  "bind_err (Inl err) f = Inl err"
  by (simp_all add: bind_err_def)

lemma bind_err_weak_cong: "m = m' \<Longrightarrow> bind_err m f = bind_err m' f"
  by simp

lemma cell_of_row: "distinct (map fst r) \<Longrightarrow> p \<in> set r \<Longrightarrow> cell r (fst p) = snd p"
  by (cases p) (simp add: cell_def)

lemma reindex_id: "distinct (map fst r) \<Longrightarrow> reindex (map fst r) r = r"
proof -
  assume d: "distinct (map fst r)"
  have "map (\<lambda>p. (fst p, cell r (fst p))) r = map (\<lambda>p. p) r"
    by (rule map_cong) (simp_all add: cell_of_row [OF d])
  then show ?thesis by (simp add: reindex_def comp_def)
qed

lemma distinct_normalized_keys: "distinct normalized_keys"
  by (simp add: normalized_keys_def)

lemma normalize_show_keys:
  "normalize_show e raw = Inr r \<Longrightarrow> map fst r = normalized_keys"
  by (auto simp: normalize_show_def normalized_keys_def bind_err_Inr split: pyval.splits)

lemma normalize_show_data_type:
  "normalize_show e raw = Inr r \<Longrightarrow> cell r ''data_type'' = PNone"
  by (auto simp: normalize_show_def bind_err_Inr cell_def split: pyval.splits)

lemma normalize_loop_rows:
  assumes "normalize_loop e items (acc, ws) = Inr (rs, ws')"
  shows "length rs \<le> length acc + length items
    \<and> (\<forall>r\<in>set rs. r \<in> set acc \<or> (\<exists>x\<in>set items. normalize_show e x = Inr r))"
  using assms
proof (induction items arbitrary: acc ws)
  case Nil
  then show ?case by simp
next
  case (Cons x xs)
  show ?case
  proof (cases "normalize_show e x")
    case (Inr r)
    with Cons.prems have "normalize_loop e xs (acc @ [r], ws) = Inr (rs, ws')" by simp
    from Cons.IH [OF this] Inr show ?thesis by auto
  next
    case (Inl err)
    with Cons.prems obtain i where "normalize_loop e xs (acc, ws @ [NormalizeFailed i err]) = Inr (rs, ws')"
      by (auto simp: bind_err_Inr)
    from Cons.IH [OF this] show ?thesis by auto
  qed
qed

lemma union_keys_same:
  "\<forall>d\<in>set ds. set (map fst d) \<subseteq> set acc \<Longrightarrow> union_keys acc ds = acc"
proof (induction ds)
  case Nil
  show ?case by simp
next
  case (Cons d ds)
  then have "filter (\<lambda>k. k \<notin> set acc) (map fst d) = []" by (auto simp: filter_empty_conv)
  with Cons show ?case by simp
qed

lemma cell_convert_row:
  assumes "cell r c = PNone"
  shows "cell (convert_row cts r) c = PNone"
proof -
  have "map_of (convert_row cts r) c = None \<or> map_of (convert_row cts r) c = Some PNone"
    by (induction cts) (auto simp: convert_row_def assms)
  then show ?thesis by (auto simp: cell_def)
qed

lemma DataFrame_Inr:
  assumes "DataFrame ds = Inr df"
  shows "\<exists>cts. columns df = union_keys [] ds \<and> rows df = map (convert_row cts) ds"
  using assms by (auto simp: DataFrame_def Let_def bind_err_Inr)

lemma DataFrame_uniform:
  assumes "ds \<noteq> []" and "\<forall>d\<in>set ds. map fst d = K"
  shows "DataFrame ds =
     bind_err (sequence_err (map (\<lambda>c. infer_dtype (map (\<lambda>d. cell d c) ds)) K)) (\<lambda>ts.
     Inr \<lparr>columns = K, rows = map (convert_row (zip K ts)) ds\<rparr>)"
proof -
  from assms(1) obtain d ds' where ds: "ds = d # ds'" by (cases ds) auto
  have "union_keys [] ds = union_keys K ds'" using ds assms(2) by simp
  also have "\<dots> = K" using ds assms(2) by (intro union_keys_same) auto
  finally have k: "union_keys [] ds = K" .
  show ?thesis unfolding DataFrame_def k Let_def by (rule refl)
qed

lemma DataFrame_empty: "DataFrame [] = Inr \<lparr>columns = [], rows = []\<rparr>"
  by (simp add: DataFrame_def bind_err_simps)

lemma normalized_frame_Inr:
  assumes "normalized_frame e items = Inr df"
  shows "length (rows df) \<le> length items"
    and "\<forall>r\<in>set (rows df). cell r ''data_type'' = PNone"
proof -
  from assms obtain rs ws where loop: "normalize_loop e items ([], []) = Inr (rs, ws)"
    and df: "DataFrame rs = Inr df"
    by (auto simp: normalized_frame_def bind_err_Inr)
  from normalize_loop_rows [OF loop] have len: "length rs \<le> length items"
    and src: "\<forall>r\<in>set rs. \<exists>x\<in>set items. normalize_show e x = Inr r" by auto
  from DataFrame_Inr [OF df] obtain cts where rows: "rows df = map (convert_row cts) rs"
    by blast
  show "length (rows df) \<le> length items" using rows len by simp
  show "\<forall>r\<in>set (rows df). cell r ''data_type'' = PNone"
  proof
    fix r assume "r \<in> set (rows df)"
    then obtain d where d: "d \<in> set rs" and r: "r = convert_row cts d"
      unfolding rows by auto
    from d src obtain x where "normalize_show e x = Inr d" by blast
    then have "cell d ''data_type'' = PNone" by (rule normalize_show_data_type)
    then show "cell r ''data_type'' = PNone" unfolding r by (rule cell_convert_row)
  qed
qed

text \<open>An integer below \<open>2 ^ 53\<close> has a float, which is the integer.\<close>

lemma small_int_float: "n < 2 ^ 53 \<Longrightarrow> \<not> float_overflow \<le> n"
  by (simp add: float_overflow_def)

lemma round64_small: "\<bar>n\<bar> < 2 ^ 53 \<Longrightarrow> round64 n = n"
  by (simp add: round64_def)

lemma sequence_err_length: "sequence_err ms = Inr xs \<Longrightarrow> length xs = length ms"
proof (induction ms arbitrary: xs)
  case Nil
  then show ?case by simp
next
  case (Cons m ms)
  then show ?case by (auto split: sum.splits)
qed

lemma cell_keys_nth:
  assumes "map fst d = K" and "distinct K" and "i < length K"
  shows "cell d (K ! i) = map snd d ! i"
proof -
  have l: "length K = length (map snd d)" using assms(1) by auto
  have "map_of (zip K (map snd d)) (K ! i) = Some (map snd d ! i)"
    using l assms(2,3) by (intro map_of_zip_nth) auto
  moreover have "zip K (map snd d) = d" unfolding assms(1) [symmetric] by (rule zip_map_fst_snd)
  ultimately show ?thesis by (simp add: cell_def)
qed

lemma convert_row_values:
  assumes "map fst d = K" and "distinct K" and "length ts = length K"
  shows "convert_row (zip K ts) d = zip K (map2 convert_cell ts (map snd d))"
proof (rule nth_equalityI)
  have l: "length d = length K" using assms(1) by (metis length_map)
  show "length (convert_row (zip K ts) d) = length (zip K (map2 convert_cell ts (map snd d)))"
    using l assms(3) by (simp add: convert_row_def)
  fix i assume "i < length (convert_row (zip K ts) d)"
  then have i: "i < length K" using assms(3) by (simp add: convert_row_def)
  from cell_keys_nth [OF assms(1,2) i] i l assms(3)
  show "convert_row (zip K ts) d ! i = zip K (map2 convert_cell ts (map snd d)) ! i"
    by (simp add: convert_row_def)
qed

lemma DataFrame_values:
  assumes "ds \<noteq> []" and "\<forall>d\<in>set ds. map fst d = K" and "distinct K"
  shows "DataFrame ds =
     bind_err (sequence_err (map (\<lambda>i. infer_dtype (map (\<lambda>d. map snd d ! i) ds)) [0..<length K]))
       (\<lambda>ts. Inr \<lparr>columns = K, rows = map (\<lambda>d. zip K (map2 convert_cell ts (map snd d))) ds\<rparr>)"
proof -
  let ?M = "map (\<lambda>i. infer_dtype (map (\<lambda>d. map snd d ! i) ds)) [0..<length K]"
  have cols: "map (\<lambda>c. infer_dtype (map (\<lambda>d. cell d c) ds)) K = ?M"
  proof (rule nth_equalityI)
    show "length (map (\<lambda>c. infer_dtype (map (\<lambda>d. cell d c) ds)) K) = length ?M" by simp
    fix i assume "i < length (map (\<lambda>c. infer_dtype (map (\<lambda>d. cell d c) ds)) K)"
    then have i: "i < length K" by simp
    have eq: "map (\<lambda>d. cell d (K ! i)) ds = map (\<lambda>d. map snd d ! i) ds"
      by (rule map_cong) (simp_all add: cell_keys_nth [OF _ assms(3) i] assms(2))
    show "map (\<lambda>c. infer_dtype (map (\<lambda>d. cell d c) ds)) K ! i = ?M ! i"
      using i by (simp add: eq)
  qed
  show ?thesis
  proof (cases "sequence_err ?M")
    case (Inl err)
    then show ?thesis
      unfolding DataFrame_uniform [OF assms(1,2)] cols by (simp add: bind_err_simps)
  next
    case (Inr ts)
    from sequence_err_length [OF this] have l: "length ts = length K" by simp
    have "map (convert_row (zip K ts)) ds
        = map (\<lambda>d. zip K (map2 convert_cell ts (map snd d))) ds"
      by (rule map_cong) (simp_all add: convert_row_values [OF _ assms(3) l] assms(2))
    with Inr show ?thesis
      unfolding DataFrame_uniform [OF assms(1,2)] cols by (simp add: bind_err_simps)
  qed
qed

text \<open>
  Running the model on a batch. A normalized record is its 15 values, in the order of the
  fields; the frame is built and read by position, not by searching for the names.
\<close>

lemma length_normalized_keys: "length normalized_keys = 15"
  by (simp add: normalized_keys_def)

lemma normalize_show_values:
  "normalize_show e (PDict d) =
     bind_err (py_float e (dict_get d ''vote_average'' (PFloat 0))) (\<lambda>vote_average. Inr
       (zip normalized_keys
          [dict_get d ''id'' PNone,
           py_or (dict_get d ''name'' PNone) (dict_get d ''original_name'' PNone),
           dict_get d ''original_name'' PNone,
           PFloat vote_average,
           dict_get d ''vote_count'' (PInt 0),
           dict_get d ''first_air_date'' PNone,
           dict_get d ''genre_ids'' (PList []),
           dict_get d ''origin_country'' (PList []),
           dict_get d ''poster_path'' PNone,
           dict_get d ''backdrop_path'' PNone,
           dict_get d ''overview'' PNone,
           dict_get d ''original_language'' PNone,
           dict_get d ''popularity'' (PFloat 0),
           PStr (now_iso e),
           PNone]))"
  by (simp add: normalize_show_def normalized_keys_def)

lemma gate_columns:
  "''show_id'' \<in> set normalized_keys"
  "''title'' \<in> set normalized_keys"
  "''popularity'' \<in> set normalized_keys"
  by (simp_all add: normalized_keys_def)

lemma gate_cells:
  "length vs = 15 \<Longrightarrow> cell (zip normalized_keys vs) ''show_id'' = vs ! 0"
  "length vs = 15 \<Longrightarrow> cell (zip normalized_keys vs) ''title'' = vs ! 1"
  "length vs = 15 \<Longrightarrow> cell (zip normalized_keys vs) ''popularity'' = vs ! 12"
proof -
  assume l: "length vs = 15"
  have k: "map fst (zip normalized_keys vs) = normalized_keys"
    using l by (simp add: length_normalized_keys)
  have s: "map snd (zip normalized_keys vs) = vs" using l by (simp add: length_normalized_keys)
  from cell_keys_nth [OF k distinct_normalized_keys, of 0]
  show "cell (zip normalized_keys vs) ''show_id'' = vs ! 0"
    unfolding s by (simp add: normalized_keys_def)
  from cell_keys_nth [OF k distinct_normalized_keys, of 1]
  show "cell (zip normalized_keys vs) ''title'' = vs ! 1"
    unfolding s by (simp add: normalized_keys_def)
  from cell_keys_nth [OF k distinct_normalized_keys, of 12]
  show "cell (zip normalized_keys vs) ''popularity'' = vs ! 12"
    unfolding s by (simp add: normalized_keys_def)
qed

lemma upt_15: "[0..<15] = [0, 1, 2, 3, 4, 5, 6, 7, 8, 9, 10, 11, 12, 13, 14]"
  by (simp add: upt_rec)

lemma DataFrame_normalized:
  "ds \<noteq> [] \<Longrightarrow> \<forall>d\<in>set ds. map fst d = normalized_keys \<Longrightarrow>
     DataFrame ds =
       bind_err (sequence_err (map (\<lambda>i. infer_dtype (map (\<lambda>d. map snd d ! i) ds))
            [0, 1, 2, 3, 4, 5, 6, 7, 8, 9, 10, 11, 12, 13, 14]))
         (\<lambda>ts. Inr \<lparr>columns = normalized_keys,
                    rows = map (\<lambda>d. zip normalized_keys (map2 convert_cell ts (map snd d))) ds\<rparr>)"
  using DataFrame_values [OF _ _ distinct_normalized_keys, of ds]
  by (simp add: length_normalized_keys upt_15)

lemmas pipeline_eval =
  normalized_frame_def gate_run_def gate_report_def gate_titles_def
  normalize_show_values dict_get_def py_or_def DataFrame_normalized DataFrame_empty
  length_normalized_keys gate_columns gate_cells
  infer_dtype_def result_dtype_def small_int_float round64_small
  bind_err_simps column_def filter_rows_def drop_duplicates_def count_true_def
  isna_def Let_def apply_data_quality_checks_def

section \<open>What the Quality Gate guarantees\<close>

text \<open>
  A run of the Quality Gate that returns applies the rules in their order.
  \<open>missing_show_id\<close> counts the rows with a null \<open>show_id\<close>, \<open>missing_title\<close> the rows
  with a null title among those with a \<open>show_id\<close>, \<open>invalid_popularity\<close> the rows with a
  negative popularity among those with both, \<open>duplicates\<close> the rows that pass the three
  filters and are not kept. The third filter keeps the rows whose popularity is at least
  0. The rows kept are rows that pass the three filters, in input order, with pairwise
  different \<open>show_id\<close>, and for every \<open>show_id\<close> the row kept is the first row in input
  order that passes the filters with it.
\<close>

lemma gate_keeps_first:
  assumes "apply_data_quality_checks df n = Inr (df', ch)"
  shows "missing_show_id ch = int (length (filter (\<lambda>r. \<not> has_show_id r) (rows df)))
    \<and> missing_title ch
        = int (length (filter (\<lambda>r. \<not> has_title r) (filter has_show_id (rows df))))
    \<and> invalid_popularity ch
        = int (length (filter popularity_negative (filter has_title (filter has_show_id (rows df)))))
    \<and> duplicates ch = int (length (filter eligible (rows df))) - int (length (rows df'))
    \<and> final_count ch = int (length (rows df'))
    \<and> subseq (rows df') (filter eligible (rows df))
    \<and> distinct (map show_key (rows df'))
    \<and> (\<forall>k. find (\<lambda>r. show_key r = k) (rows df')
           = find (\<lambda>r. show_key r = k) (filter eligible (rows df)))"
proof -
  note g = gate_rows [OF assms]
  have "subseq (rows df') (filter eligible (rows df))"
    unfolding g(1) by (rule subseq_keep_first)
  moreover have "distinct (map show_key (rows df'))"
    unfolding g(1) by (rule distinct_keep_first)
  moreover have "\<forall>k. find (\<lambda>r. show_key r = k) (rows df')
      = find (\<lambda>r. show_key r = k) (filter eligible (rows df))"
    unfolding g(1) by (simp add: find_keep_first)
  ultimately show ?thesis using g(3-7) by simp
qed

text \<open>
  The Quality Gate returns on every frame that has the three columns it reads and whose
  popularity, in the rows that have a \<open>show_id\<close> and a title, is a number, a boolean or
  null.
\<close>

lemma sequence_err_all:
  "\<forall>x\<in>set xs. \<exists>b. g x = Inr b \<Longrightarrow> \<exists>bs. sequence_err (map g xs) = Inr bs"
proof (induction xs)
  case Nil
  show ?case by simp
next
  case (Cons x xs)
  then obtain b bs where "g x = Inr b" "sequence_err (map g xs) = Inr bs" by auto
  then show ?case by simp
qed

lemma gate_returns:
  assumes "{''show_id'', ''title'', ''popularity''} \<subseteq> set (columns df)"
    and "\<forall>r\<in>set (rows df). has_show_id r \<and> has_title r \<longrightarrow>
           (\<exists>b. compare0 (\<lambda>x. 0 \<le> x) (cell r ''popularity'') = Inr b)"
  shows "\<exists>df' ch. apply_data_quality_checks df n = Inr (df', ch)"
proof -
  let ?R2 = "filter has_title (filter has_show_id (rows df))"
  let ?df1 = "filter_rows (map (\<lambda>v. \<not> isna v) (map (\<lambda>r. cell r ''show_id'') (rows df))) df"
  let ?df2 = "filter_rows (map (\<lambda>v. \<not> isna v) (map (\<lambda>r. cell r ''title'') (rows ?df1))) ?df1"
  have r1: "rows ?df1 = filter has_show_id (rows df)"
    using select_map [of has_show_id "rows df"] by (simp add: row_predicates(1) comp_def)
  have r2: "rows ?df2 = ?R2"
    using select_map [of has_title "filter has_show_id (rows df)"] r1
    by (simp add: row_predicates(2) comp_def)
  have both: "\<forall>r\<in>set ?R2. (\<exists>a. compare0 (\<lambda>x. x < 0) (cell r ''popularity'') = Inr a)
      \<and> (\<exists>b. compare0 (\<lambda>x. 0 \<le> x) (cell r ''popularity'') = Inr b)"
  proof
    fix r assume "r \<in> set ?R2"
    with assms(2) obtain b where "compare0 (\<lambda>x. 0 \<le> x) (cell r ''popularity'') = Inr b"
      by auto
    then show "(\<exists>a. compare0 (\<lambda>x. x < 0) (cell r ''popularity'') = Inr a)
      \<and> (\<exists>b. compare0 (\<lambda>x. 0 \<le> x) (cell r ''popularity'') = Inr b)"
      by (cases "cell r ''popularity''") auto
  qed
  from sequence_err_all [of ?R2 "\<lambda>r. compare0 (\<lambda>x. x < 0) (cell r ''popularity'')"] both
  obtain neg where neg: "sequence_err (map (compare0 (\<lambda>x. x < 0))
      (map (\<lambda>r. cell r ''popularity'') (rows ?df2))) = Inr neg"
    unfolding r2 by (auto simp: comp_def)
  from sequence_err_all [of ?R2 "\<lambda>r. compare0 (\<lambda>x. 0 \<le> x) (cell r ''popularity'')"] both
  obtain nonneg where nonneg: "sequence_err (map (compare0 (\<lambda>x. 0 \<le> x))
      (map (\<lambda>r. cell r ''popularity'') (rows ?df2))) = Inr nonneg"
    unfolding r2 by (auto simp: comp_def)
  have c1: "column df ''show_id'' = Inr (map (\<lambda>r. cell r ''show_id'') (rows df))"
    using assms(1) by (simp add: column_def)
  have c2: "column ?df1 ''title'' = Inr (map (\<lambda>r. cell r ''title'') (rows ?df1))"
    using assms(1) by (simp add: column_def)
  have c3: "column ?df2 ''popularity'' = Inr (map (\<lambda>r. cell r ''popularity'') (rows ?df2))"
    using assms(1) by (simp add: column_def)
  have c4: "\<exists>vs. column (filter_rows nonneg ?df2) ''show_id'' = Inr vs"
    using assms(1) by (simp add: column_def)
  show ?thesis
    unfolding apply_data_quality_checks_def c1 bind_err_simps Let_def c2 c3 neg nonneg
      drop_duplicates_def
    using c4 by (auto simp: bind_err_simps)
qed

text \<open>
  C3 fails on the code, at the third rule. The rule keeps the rows whose popularity is at
  least 0 and counts the rows whose popularity is below 0: a null popularity is neither,
  so the row is dropped though its popularity is not below 0, and no counter counts it. On
  the batch of the scenario, which has no such record, the report is as claimed and of the
  two records that share a \<open>show_id\<close> the first is kept. With a sixth record that has a
  null popularity the report is the same but for the count of raw records: the record is
  gone, and the counters of the rules and \<open>final_count\<close> add up to 5, not 6.
\<close>

theorem null_popularity_dropped:
  "compare0 (\<lambda>x. x < 0) PNone = Inr False
   \<and> compare0 (\<lambda>x. 0 \<le> x) PNone = Inr False
   \<and> gate_report sample_env scenario_batch 5 =
       Inr \<lparr>initial_count = 5, missing_show_id = 1, missing_title = 0,
            invalid_popularity = 1, duplicates = 1, final_count = 2, failed_count = 3,
            pass_rate = 0.4\<rparr>
   \<and> gate_titles sample_env scenario_batch 5 = Inr [PStr ''Alpha'', PStr ''Epsilon'']
   \<and> frame_size sample_env scenario_null_batch = Inr 6
   \<and> gate_report sample_env scenario_null_batch 6 =
       Inr \<lparr>initial_count = 6, missing_show_id = 1, missing_title = 0,
            invalid_popularity = 1, duplicates = 1, final_count = 2, failed_count = 4,
            pass_rate = 1 / 3\<rparr>
   \<and> gate_titles sample_env scenario_null_batch 6 = Inr [PStr ''Alpha'', PStr ''Epsilon'']"
proof -
  have "gate_report sample_env scenario_batch 5 =
       Inr \<lparr>initial_count = 5, missing_show_id = 1, missing_title = 0,
            invalid_popularity = 1, duplicates = 1, final_count = 2, failed_count = 3,
            pass_rate = 0.4\<rparr>"
    by (simp add: scenario_batch_def pipeline_eval cong: bind_err_weak_cong)
  moreover have "gate_titles sample_env scenario_batch 5
      = Inr [PStr ''Alpha'', PStr ''Epsilon'']"
    by (simp add: scenario_batch_def pipeline_eval cong: bind_err_weak_cong)
  moreover have "frame_size sample_env scenario_null_batch = Inr 6"
    by (simp add: scenario_null_batch_def scenario_batch_def frame_size_def pipeline_eval
        cong: bind_err_weak_cong)
  moreover have "gate_report sample_env scenario_null_batch 6 =
       Inr \<lparr>initial_count = 6, missing_show_id = 1, missing_title = 0,
            invalid_popularity = 1, duplicates = 1, final_count = 2, failed_count = 4,
            pass_rate = 1 / 3\<rparr>"
    by (simp add: scenario_null_batch_def scenario_batch_def pipeline_eval
        cong: bind_err_weak_cong)
  moreover have "gate_titles sample_env scenario_null_batch 6
      = Inr [PStr ''Alpha'', PStr ''Epsilon'']"
    by (simp add: scenario_null_batch_def scenario_batch_def pipeline_eval
        cong: bind_err_weak_cong)
  ultimately show ?thesis by simp
qed

text \<open>
  C9 fails on the code. Two records are handed to the Quality Gate, the first with a null
  popularity: it is neither below 0 nor at least 0, so the third rule removes it and counts
  nothing. The four counters and \<open>final_count\<close> add up to 1, not 2.
\<close>

theorem null_popularity_uncounted:
  "frame_size sample_env null_popularity_batch = Inr 2
   \<and> gate_report sample_env null_popularity_batch 2 =
       Inr \<lparr>initial_count = 2, missing_show_id = 0, missing_title = 0, invalid_popularity = 0,
            duplicates = 0, final_count = 1, failed_count = 1, pass_rate = 0.5\<rparr>
   \<and> gate_titles sample_env null_popularity_batch 2 = Inr [PStr ''B'']"
  by (simp add: null_popularity_batch_def frame_size_def pipeline_eval cong: bind_err_weak_cong)

lemma compare0_cases:
  assumes "compare0 (\<lambda>x. x < 0) v = Inr a" and "compare0 (\<lambda>x. 0 \<le> x) v = Inr b"
  shows "(a \<and> \<not> b \<and> v \<noteq> PNone) \<or> (\<not> a \<and> b \<and> v \<noteq> PNone) \<or> (\<not> a \<and> \<not> b \<and> v = PNone)"
  using assms by (cases v) auto

lemma three_way_count:
  assumes "\<forall>x\<in>set xs. (P x \<and> \<not> Q x \<and> \<not> N x) \<or> (\<not> P x \<and> Q x \<and> \<not> N x) \<or> (\<not> P x \<and> \<not> Q x \<and> N x)"
  shows "length xs = length (filter P xs) + length (filter Q xs) + length (filter N xs)"
  using assms by (induction xs) auto

text \<open>
  What the counters of a run of the Quality Gate account for: all the rows handed in but
  those that have a \<open>show_id\<close> and a title and a null popularity.
\<close>

lemma gate_accounting:
  assumes "apply_data_quality_checks df n = Inr (df', ch)"
  shows "missing_show_id ch + missing_title ch + invalid_popularity ch + duplicates ch
      + final_count ch
    = int (length (rows df))
      - int (length (filter (\<lambda>r. isna (cell r ''popularity''))
               (filter has_title (filter has_show_id (rows df)))))"
proof -
  note g = gate_rows [OF assms]
  let ?R = "rows df"
  let ?R1 = "filter has_show_id ?R"
  let ?R2 = "filter has_title ?R1"
  have a1: "length (filter (\<lambda>r. \<not> has_show_id r) ?R) + length ?R1 = length ?R"
    using sum_length_filter_compl [of has_show_id ?R] by simp
  have a2: "length (filter (\<lambda>r. \<not> has_title r) ?R1) + length ?R2 = length ?R1"
    using sum_length_filter_compl [of has_title ?R1] by simp
  have "\<forall>r\<in>set ?R2. (popularity_negative r \<and> \<not> popularity_ok r \<and> \<not> isna (cell r ''popularity''))
      \<or> (\<not> popularity_negative r \<and> popularity_ok r \<and> \<not> isna (cell r ''popularity''))
      \<or> (\<not> popularity_negative r \<and> \<not> popularity_ok r \<and> isna (cell r ''popularity''))"
  proof
    fix r assume "r \<in> set ?R2"
    with g(11) obtain a b where "compare0 (\<lambda>x. x < 0) (cell r ''popularity'') = Inr a"
      "compare0 (\<lambda>x. 0 \<le> x) (cell r ''popularity'') = Inr b" by blast
    from compare0_cases [OF this] this
    show "(popularity_negative r \<and> \<not> popularity_ok r \<and> \<not> isna (cell r ''popularity''))
      \<or> (\<not> popularity_negative r \<and> popularity_ok r \<and> \<not> isna (cell r ''popularity''))
      \<or> (\<not> popularity_negative r \<and> \<not> popularity_ok r \<and> isna (cell r ''popularity''))"
      by (auto simp: popularity_negative_def popularity_ok_def isna_def)
  qed
  from three_way_count [OF this] have a3: "length ?R2 = length (filter popularity_negative ?R2)
      + length (filter popularity_ok ?R2)
      + length (filter (\<lambda>r. isna (cell r ''popularity'')) ?R2)" .
  have e: "filter eligible ?R = filter popularity_ok ?R2"
    by (simp add: row_predicates(6))
  show ?thesis using g(3,4,5,6,7) a1 a2 a3 e by simp
qed

section \<open>Deduplication in columns of floats and of objects\<close>

text \<open>
  The first integers that have no float of their own: \<open>2 ^ 53 + 1\<close> is rounded down
  to \<open>2 ^ 53\<close>, the even neighbour, and \<open>2 ^ 53 + 3\<close> up to \<open>2 ^ 53 + 4\<close>.
\<close>

lemma round64_examples:
  "round64 9007199254740992 = 9007199254740992"
  "round64 9007199254740993 = 9007199254740992"
  "round64 9007199254740995 = 9007199254740996"
  "round64 (- 9007199254740993) = - 9007199254740992"
proof -
  have b: "bitlen 9007199254740992 = 54" "bitlen 9007199254740993 = 54"
    "bitlen 9007199254740995 = 54"
    using bitlen_twopow_add_eq [of 0 53] bitlen_twopow_add_eq [of 1 53]
      bitlen_twopow_add_eq [of 3 53] by simp_all
  show "round64 9007199254740992 = 9007199254740992"
    "round64 9007199254740993 = 9007199254740992"
    "round64 9007199254740995 = 9007199254740996"
    "round64 (- 9007199254740993) = - 9007199254740992"
    by (simp_all add: round64_def b Let_def)
qed

text \<open>
  Two records whose \<open>id\<close> are \<open>2 ^ 53\<close> and \<open>2 ^ 53 + 1\<close>. With a third record
  that has no \<open>id\<close> the column is a column of floats, the two are the same float, and
  the second is a duplicate of the first.
\<close>

lemma float_ids_merge:
  "gate_report sample_env
     [PDict [(''id'', PInt 9007199254740992), (''name'', PStr ''A'')],
      PDict [(''id'', PInt 9007199254740993), (''name'', PStr ''B'')],
      PDict [(''name'', PStr ''C'')]] 3
   = Inr \<lparr>initial_count = 3, missing_show_id = 1, missing_title = 0, invalid_popularity = 0,
          duplicates = 1, final_count = 1, failed_count = 2, pass_rate = 1 / 3\<rparr>"
  by (simp add: pipeline_eval round64_examples float_overflow_def cong: bind_err_weak_cong)

text \<open>Without the third record the column is a column of integers and both are kept.\<close>

lemma int_ids_apart:
  "gate_report sample_env
     [PDict [(''id'', PInt 9007199254740992), (''name'', PStr ''A'')],
      PDict [(''id'', PInt 9007199254740993), (''name'', PStr ''B'')]] 2
   = Inr \<lparr>initial_count = 2, missing_show_id = 0, missing_title = 0, invalid_popularity = 0,
          duplicates = 0, final_count = 2, failed_count = 0, pass_rate = 1\<rparr>"
  by (simp add: pipeline_eval round64_examples float_overflow_def cong: bind_err_weak_cong)

text \<open>
  Records whose \<open>id\<close> is a list or a dict: nothing is raised, and a record is a
  duplicate when its \<open>id\<close> is equal to an earlier one, a list item by item and a dict
  whatever the order of its keys.
\<close>

lemma list_ids_deduplicated:
  "gate_report sample_env
     [PDict [(''id'', PList [PInt 1]), (''name'', PStr ''A'')],
      PDict [(''id'', PList [PFloat 1]), (''name'', PStr ''B'')],
      PDict [(''id'', PDict [(''a'', PInt 1), (''b'', PInt 2)]), (''name'', PStr ''C'')],
      PDict [(''id'', PDict [(''b'', PInt 2), (''a'', PInt 1)]), (''name'', PStr ''D'')]] 4
   = Inr \<lparr>initial_count = 4, missing_show_id = 0, missing_title = 0, invalid_popularity = 0,
          duplicates = 2, final_count = 2, failed_count = 2, pass_rate = 1 / 2\<rparr>"
  by (simp add: pipeline_eval finsert_commute cong: bind_err_weak_cong)

section \<open>Properties of the Schema Enforcer\<close>

lemma cell_update: "cell (AList.update c v r) k = (if k = c then v else cell r k)"
  by (simp add: cell_def update_conv')

lemma keys_update:
  "map fst (AList.update c v r) = (if c \<in> set (map fst r) then map fst r else map fst r @ [c])"
  by (simp add: update_keys)

lemma zip_replicate_update:
  "map (\<lambda>rv. AList.update c (snd rv) (fst rv)) (zip rs (replicate (length rs) v))
     = map (AList.update c v) rs"
  by (induction rs) auto

lemma add_missing_props:
  "length (rows (add_missing df cs)) = length (rows df)
   \<and> set (columns (add_missing df cs)) = set (columns df) \<union> set cs
   \<and> (\<forall>k. col_values (add_missing df cs) k
        = (if k \<in> set cs \<and> k \<notin> set (columns df) then replicate (length (rows df)) PNone
           else col_values df k))"
proof (induction cs arbitrary: df)
  case Nil
  show ?case by simp
next
  case (Cons c cs)
  show ?case
  proof (cases "c \<in> set (columns df)")
    case True
    then show ?thesis using Cons.IH [of df] by auto
  next
    case False
    let ?df = "set_column df c (replicate (length (rows df)) PNone)"
    have r: "rows ?df = map (AList.update c PNone) (rows df)"
      by (simp add: set_column_def zip_replicate_update)
    have c: "columns ?df = columns df @ [c]" using False by (simp add: set_column_def)
    have v: "col_values ?df k = (if k = c then replicate (length (rows df)) PNone else col_values df k)"
      for k
      by (simp add: col_values_def r cell_update comp_def map_replicate_const)
    have "add_missing df (c # cs) = add_missing ?df cs" using False by simp
    then show ?thesis using Cons.IH [of ?df] r c v False by auto
  qed
qed


lemma map_of_tabulate:
  "map_of (map (\<lambda>k. (k, f k)) ks) k = (if k \<in> set ks then Some (f k) else None)"
  by (induction ks) auto

lemma cell_reindex: "cell (reindex K r) k = (if k \<in> set K then cell r k else PNone)"
  by (simp add: reindex_def cell_def map_of_tabulate)

lemma keys_reindex: "map fst (reindex K r) = K"
  by (simp add: reindex_def comp_def)

lemma select_columns_props:
  assumes "set K \<subseteq> set (columns df)"
  shows "\<exists>S. select_columns df K = Inr S \<and> shaped K S \<and> length (rows S) = length (rows df)
     \<and> (\<forall>k\<in>set K. col_values S k = col_values df k)"
  using assms
  by (auto simp: select_columns_def shaped_def keys_reindex col_values_def cell_reindex)

lemma set_column_props:
  assumes "shaped K df" and "c \<in> set K" and "length vs = length (rows df)"
  shows "shaped K (set_column df c vs)"
    and "length (rows (set_column df c vs)) = length (rows df)"
    and "col_values (set_column df c vs) k = (if k = c then vs else col_values df k)"
proof -
  let ?R = "rows df"
  have rows: "rows (set_column df c vs) = map (\<lambda>rv. AList.update c (snd rv) (fst rv)) (zip ?R vs)"
    by (simp add: set_column_def)
  have cols: "columns (set_column df c vs) = K"
    using assms(1,2) by (simp add: set_column_def shaped_def)
  have "\<forall>rv\<in>set (zip ?R vs). map fst (AList.update c (snd rv) (fst rv)) = K"
  proof
    fix rv assume "rv \<in> set (zip ?R vs)"
    then have "fst rv \<in> set ?R" by (metis prod.collapse set_zip_leftD)
    with assms(1) have "map fst (fst rv) = K" by (simp add: shaped_def)
    with assms(2) show "map fst (AList.update c (snd rv) (fst rv)) = K"
      by (simp add: keys_update)
  qed
  with cols rows show "shaped K (set_column df c vs)" by (simp add: shaped_def)
  show "length (rows (set_column df c vs)) = length (rows df)"
    using assms(3) by (simp add: rows)
  have "map (\<lambda>rv. cell (AList.update c (snd rv) (fst rv)) k) (zip ?R vs)
      = (if k = c then map snd (zip ?R vs) else map (\<lambda>rv. cell (fst rv) k) (zip ?R vs))"
    by (simp add: cell_update)
  moreover have "map snd (zip ?R vs) = vs" using assms(3) by simp
  moreover have "map (\<lambda>rv. cell (fst rv) k) (zip ?R vs) = map (\<lambda>r. cell r k) (map fst (zip ?R vs))"
    by (simp add: comp_def)
  moreover have "map fst (zip ?R vs) = ?R" using assms(3) by simp
  ultimately show "col_values (set_column df c vs) k = (if k = c then vs else col_values df k)"
    by (simp add: col_values_def rows comp_def)
qed

lemma column_shaped: "shaped K df \<Longrightarrow> c \<in> set K \<Longrightarrow> column df c = Inr (col_values df c)"
  by (simp add: column_def shaped_def col_values_def)

lemma cast_columns_props:
  assumes len: "\<forall>d vs vs'. astype e d vs = Some vs' \<longrightarrow> length vs' = length vs"
    and "shaped K df" and "distinct (map fst items)" and "set (map fst items) \<subseteq> set K"
  shows "\<exists>df' ws'. cast_columns e items (df, ws) = (df', ws') \<and> shaped K df'
     \<and> length (rows df') = length (rows df)
     \<and> (\<forall>k. col_values df' k
          = (case map_of items k of Some d \<Rightarrow> coerce e d (col_values df k)
             | None \<Rightarrow> col_values df k))"
  using assms(2-4)
proof (induction items arbitrary: df ws)
  case Nil
  then show ?case by simp
next
  case (Cons item rest)
  obtain c d where item: "item = (c, d)" by (cases item)
  from Cons.prems item have cK: "c \<in> set K" and crest: "c \<notin> set (map fst rest)"
    and drest: "distinct (map fst rest)" and srest: "set (map fst rest) \<subseteq> set K"
    by auto
  let ?step = "(if d \<in> set [''Int64'', ''float64'', ''string''] then
          (case column df c of
             Inl err \<Rightarrow> (df, ws @ [CastFailed c d])
           | Inr vs \<Rightarrow>
               (case astype e d vs of
                  None \<Rightarrow> (df, ws @ [CastFailed c d])
                | Some vs' \<Rightarrow> (set_column df c vs', ws)))
        else (df, ws))"
  have step: "\<exists>df1 ws1. ?step = (df1, ws1) \<and> shaped K df1
      \<and> length (rows df1) = length (rows df)
      \<and> (\<forall>k. col_values df1 k = (if k = c then coerce e d (col_values df c) else col_values df k))"
  proof (cases "d \<in> set [''Int64'', ''float64'', ''string'']")
    case False
    then show ?thesis using Cons.prems(1) by (simp add: coerce_def)
  next
    case True
    note col = column_shaped [OF Cons.prems(1) cK]
    show ?thesis
    proof (cases "astype e d (col_values df c)")
      case None
      then show ?thesis using True col Cons.prems(1) by (simp add: coerce_def)
    next
      case (Some vs')
      with len have l: "length vs' = length (rows df)" by (auto simp: col_values_def)
      note sc = set_column_props [OF Cons.prems(1) cK l]
      have "?step = (set_column df c vs', ws)" using True col Some by simp
      moreover have "coerce e d (col_values df c) = vs'" using True Some by (simp add: coerce_def)
      ultimately show ?thesis using sc by auto
    qed
  qed
  then obtain df1 ws1 where s1: "?step = (df1, ws1)" and sh1: "shaped K df1"
    and l1: "length (rows df1) = length (rows df)"
    and v1: "\<forall>k. col_values df1 k = (if k = c then coerce e d (col_values df c) else col_values df k)"
    by blast
  from Cons.IH [OF sh1 drest srest, of ws1] obtain df' ws' where
    r: "cast_columns e rest (df1, ws1) = (df', ws')" and sh': "shaped K df'"
    and l': "length (rows df') = length (rows df1)"
    and v': "\<forall>k. col_values df' k
          = (case map_of rest k of Some d \<Rightarrow> coerce e d (col_values df1 k)
             | None \<Rightarrow> col_values df1 k)"
    by blast
  have "cast_columns e (item # rest) (df, ws) = cast_columns e rest ?step"
    unfolding item by (simp only: cast_columns.simps)
  with s1 r have res: "cast_columns e (item # rest) (df, ws) = (df', ws')" by simp
  have none: "map_of rest c = None" using crest by (simp add: map_of_eq_None_iff)
  have "\<forall>k. col_values df' k
          = (case map_of (item # rest) k of Some d \<Rightarrow> coerce e d (col_values df k)
             | None \<Rightarrow> col_values df k)"
  proof
    fix k
    show "col_values df' k
          = (case map_of (item # rest) k of Some d \<Rightarrow> coerce e d (col_values df k)
             | None \<Rightarrow> col_values df k)"
    proof (cases "k = c")
      case True
      then show ?thesis using v' v1 none item by simp
    next
      case False
      with v1 have "col_values df1 k = col_values df k" by simp
      with False show ?thesis using v' [rule_format, of k] item
        by (simp split: option.splits)
    qed
  qed
  with res sh' l' l1 show ?case by simp
qed


lemma add_missing_noop: "set cs \<subseteq> set (columns df) \<Longrightarrow> add_missing df cs = df"
  by (induction cs) auto

lemma map_zip_self: "map (\<lambda>rv. g (fst rv) (snd rv)) (zip xs (map f xs)) = map (\<lambda>x. g x (f x)) xs"
  by (induction xs) auto

lemma set_column_same:
  assumes "shaped K df" and "c \<in> set K"
  shows "set_column df c (col_values df c) = df"
proof -
  have "map (\<lambda>rv. AList.update c (snd rv) (fst rv)) (zip (rows df) (map (\<lambda>r. cell r c) (rows df)))
      = map (\<lambda>r. AList.update c (cell r c) r) (rows df)"
    by (rule map_zip_self [of "\<lambda>r v. AList.update c v r"])
  also have "\<dots> = map (\<lambda>r. r) (rows df)"
  proof (rule map_cong)
    fix r assume "r \<in> set (rows df)"
    with assms have "c \<in> set (map fst r)" by (auto simp: shaped_def)
    then have "map_of r c \<noteq> None" by (simp add: map_of_eq_None_iff)
    then obtain v where "map_of r c = Some v" by auto
    then show "AList.update c (cell r c) r = r" by (simp add: cell_def update_triv)
  qed simp
  finally show ?thesis using assms by (simp add: set_column_def col_values_def shaped_def)
qed

lemma cast_columns_stable:
  assumes "shaped K df" and "set (map fst items) \<subseteq> set K"
    and "\<forall>(c, d)\<in>set items. d \<in> set [''Int64'', ''float64'', ''string''] \<longrightarrow>
           astype e d (col_values df c) = None \<or> astype e d (col_values df c) = Some (col_values df c)"
  shows "fst (cast_columns e items (df, ws)) = df"
  using assms(2,3)
proof (induction items arbitrary: ws)
  case Nil
  show ?case by simp
next
  case (Cons item rest)
  obtain c d where item: "item = (c, d)" by (cases item)
  from Cons.prems item have cK: "c \<in> set K" by auto
  note col = column_shaped [OF assms(1) cK]
  let ?step = "(if d \<in> set [''Int64'', ''float64'', ''string''] then
          (case column df c of
             Inl err \<Rightarrow> (df, ws @ [CastFailed c d])
           | Inr vs \<Rightarrow>
               (case astype e d vs of
                  None \<Rightarrow> (df, ws @ [CastFailed c d])
                | Some vs' \<Rightarrow> (set_column df c vs', ws)))
        else (df, ws))"
  have "\<exists>ws1. ?step = (df, ws1)"
  proof (cases "d \<in> set [''Int64'', ''float64'', ''string'']")
    case False
    then show ?thesis by simp
  next
    case True
    with Cons.prems(2) item have
      "astype e d (col_values df c) = None \<or> astype e d (col_values df c) = Some (col_values df c)"
      by auto
    then show ?thesis
    proof
      assume "astype e d (col_values df c) = None"
      then show ?thesis using True col by simp
    next
      assume "astype e d (col_values df c) = Some (col_values df c)"
      then show ?thesis using True col set_column_same [OF assms(1) cK] by simp
    qed
  qed
  then obtain ws1 where s: "?step = (df, ws1)" by blast
  have "cast_columns e (item # rest) (df, ws) = cast_columns e rest ?step"
    unfolding item by (simp only: cast_columns.simps)
  with s have "cast_columns e (item # rest) (df, ws) = cast_columns e rest (df, ws1)" by simp
  moreover have "fst (cast_columns e rest (df, ws1)) = df"
    using Cons.prems by (intro Cons.IH) auto
  ultimately show ?case by simp
qed


lemma enforce_schema_props:
  assumes len: "\<forall>d vs vs'. astype e d vs = Some vs' \<longrightarrow> length vs' = length vs"
    and dist: "distinct (map fst schema)"
  shows "\<exists>out ws. enforce_schema e df schema = Inr (out, ws) \<and> shaped (map fst schema) out
     \<and> length (rows out) = length (rows df)
     \<and> (\<forall>(c, d)\<in>set schema. col_values out c = coerce e d (source_column df c))"
proof -
  let ?K = "map fst schema"
  let ?A = "add_missing df ?K"
  note A = add_missing_props [of df ?K]
  have sub: "set ?K \<subseteq> set (columns ?A)" using A by auto
  from select_columns_props [OF sub] obtain S where S: "select_columns ?A ?K = Inr S"
    and shS: "shaped ?K S" and lS: "length (rows S) = length (rows ?A)"
    and vS: "\<forall>k\<in>set ?K. col_values S k = col_values ?A k" by blast
  from cast_columns_props [OF len shS dist subset_refl, of "[]"] obtain out ws where
    c: "cast_columns e schema (S, []) = (out, ws)" and sho: "shaped ?K out"
    and lo: "length (rows out) = length (rows S)"
    and vo: "\<forall>k. col_values out k
          = (case map_of schema k of Some d \<Rightarrow> coerce e d (col_values S k)
             | None \<Rightarrow> col_values S k)" by blast
  have res: "enforce_schema e df schema = Inr (out, ws)"
    using S c by (simp add: enforce_schema_def bind_err_def)
  have "\<forall>(c, d)\<in>set schema. col_values out c = coerce e d (source_column df c)"
  proof (clarify)
    fix c d assume cd: "(c, d) \<in> set schema"
    with dist have m: "map_of schema c = Some d" by simp
    from cd have cK: "c \<in> set ?K" by force
    have "col_values S c = source_column df c"
      using vS cK A by (auto simp: source_column_def)
    with vo m show "col_values out c = coerce e d (source_column df c)" by simp
  qed
  with res sho lo lS A show ?thesis by auto
qed

lemma enforce_schema_again:
  assumes "shaped (map fst schema) out" and "distinct (map fst schema)"
    and "\<forall>(c, d)\<in>set schema. d \<in> set [''Int64'', ''float64'', ''string''] \<longrightarrow>
           astype e d (col_values out c) = None \<or> astype e d (col_values out c) = Some (col_values out c)"
  shows "\<exists>ws. enforce_schema e out schema = Inr (out, ws)"
proof -
  let ?K = "map fst schema"
  have cols: "columns out = ?K" using assms(1) by (simp add: shaped_def)
  have "add_missing out ?K = out" by (rule add_missing_noop) (simp add: cols)
  moreover have "map (reindex ?K) (rows out) = map (\<lambda>r. r) (rows out)"
  proof (rule map_cong)
    fix r assume "r \<in> set (rows out)"
    with assms(1) have k: "map fst r = ?K" by (simp add: shaped_def)
    with assms(2) have "distinct (map fst r)" by simp
    from reindex_id [OF this] k show "reindex ?K r = r" by simp
  qed simp
  then have "select_columns out ?K = Inr out" using cols by (simp add: select_columns_def)
  moreover have "fst (cast_columns e schema (out, [])) = out"
    by (rule cast_columns_stable [OF assms(1) subset_refl assms(3)])
  ultimately show ?thesis
    by (cases "cast_columns e schema (out, [])") (simp add: enforce_schema_def bind_err_def)
qed

lemma schema_keys:
  "map fst SILVER_SCHEMA =
     [''show_id'', ''title'', ''original_title'', ''popularity'', ''vote_average'',
      ''vote_count'', ''first_air_date'', ''genre_ids'', ''origin_country'', ''poster_path'',
      ''backdrop_path'', ''overview'', ''original_language'', ''ingestion_date'', ''data_type'']"
  by (simp add: SILVER_SCHEMA_def)

lemma distinct_schema_keys: "distinct (map fst SILVER_SCHEMA)"
  unfolding schema_keys by simp

text \<open>
  C4. The conversion of a column is the library's; it is assumed to keep the length of the
  column, to leave a column alone that it has already converted, and to turn a column of
  nulls into nulls. Then, for every frame, the Schema Enforcer returns a frame with
  exactly the 15 canonical columns in canonical order, in its header and in each row, and
  with as many rows. A canonical column that the input has is the conversion of the input
  column; one that the input lacks is null in every row; every other column is gone.
  Enforcing the schema on the result returns the result.
\<close>

theorem schema_enforcer:
  assumes len: "\<forall>d vs vs'. astype e d vs = Some vs' \<longrightarrow> length vs' = length vs"
    and idem: "\<forall>d vs vs'. astype e d vs = Some vs' \<longrightarrow>
        astype e d vs' = Some vs' \<or> astype e d vs' = None"
    and null: "\<forall>d n vs'. astype e d (replicate n PNone) = Some vs' \<longrightarrow> vs' = replicate n PNone"
  shows "\<exists>out ws ws'. enforce_schema e df SILVER_SCHEMA = Inr (out, ws)
     \<and> columns out = map fst SILVER_SCHEMA
     \<and> length (map fst SILVER_SCHEMA) = 15 \<and> distinct (map fst SILVER_SCHEMA)
     \<and> (\<forall>r\<in>set (rows out). map fst r = map fst SILVER_SCHEMA)
     \<and> length (rows out) = length (rows df)
     \<and> (\<forall>(c, d)\<in>set SILVER_SCHEMA. c \<in> set (columns df) \<longrightarrow>
           col_values out c = coerce e d (col_values df c))
     \<and> (\<forall>(c, d)\<in>set SILVER_SCHEMA. c \<notin> set (columns df) \<longrightarrow>
           (\<forall>r\<in>set (rows out). cell r c = PNone))
     \<and> enforce_schema e out SILVER_SCHEMA = Inr (out, ws')"
proof -
  let ?K = "map fst SILVER_SCHEMA"
  from enforce_schema_props [OF len distinct_schema_keys, of df] obtain out ws where
    res: "enforce_schema e df SILVER_SCHEMA = Inr (out, ws)" and sh: "shaped ?K out"
    and l: "length (rows out) = length (rows df)"
    and v: "\<forall>(c, d)\<in>set SILVER_SCHEMA. col_values out c = coerce e d (source_column df c)"
    by blast
  have stable: "\<forall>(c, d)\<in>set SILVER_SCHEMA. d \<in> set [''Int64'', ''float64'', ''string''] \<longrightarrow>
      astype e d (col_values out c) = None \<or> astype e d (col_values out c) = Some (col_values out c)"
  proof (clarify)
    fix c d assume cd: "(c, d) \<in> set SILVER_SCHEMA"
      and castable: "d \<in> set [''Int64'', ''float64'', ''string'']"
      and n: "astype e d (col_values out c) \<noteq> Some (col_values out c)"
    from v cd have o: "col_values out c = coerce e d (source_column df c)" by auto
    show "astype e d (col_values out c) = None"
    proof (cases "astype e d (source_column df c)")
      case None
      with o castable show ?thesis by (simp add: coerce_def)
    next
      case (Some vs')
      with o castable have "col_values out c = vs'" by (simp add: coerce_def)
      with idem Some n show ?thesis by metis
    qed
  qed
  from enforce_schema_again [OF sh distinct_schema_keys stable] obtain ws' where
    again: "enforce_schema e out SILVER_SCHEMA = Inr (out, ws')" by blast
  have present: "\<forall>(c, d)\<in>set SILVER_SCHEMA. c \<in> set (columns df) \<longrightarrow>
           col_values out c = coerce e d (col_values df c)"
    using v by (auto simp: source_column_def)
  have missing: "\<forall>(c, d)\<in>set SILVER_SCHEMA. c \<notin> set (columns df) \<longrightarrow>
           (\<forall>r\<in>set (rows out). cell r c = PNone)"
  proof (clarify)
    fix c d r assume cd: "(c, d) \<in> set SILVER_SCHEMA" and m: "c \<notin> set (columns df)"
      and r: "r \<in> set (rows out)"
    let ?n = "length (rows df)"
    from v cd m have o: "col_values out c = coerce e d (replicate ?n PNone)"
      by (auto simp: source_column_def)
    have "coerce e d (replicate ?n PNone) = replicate ?n PNone"
      using null by (auto simp: coerce_def split: option.splits)
    with o have "col_values out c = replicate ?n PNone" by simp
    then have "set (col_values out c) \<subseteq> {PNone}" by auto
    with r show "cell r c = PNone" by (auto simp: col_values_def)
  qed
  have "length ?K = 15" unfolding schema_keys by simp
  with res sh l present missing again distinct_schema_keys show ?thesis
    unfolding shaped_def by blast
qed

lemma sample_astype_length: "sample_astype d vs = Some vs' \<Longrightarrow> length vs' = length vs"
  by (auto simp: sample_astype_def split: if_splits)

lemma float_cell_again: "float_cell v = Some w \<Longrightarrow> float_cell w = Some w"
  by (cases v) auto

lemma sample_astype_again: "sample_astype d vs = Some vs' \<Longrightarrow> sample_astype d vs' = Some vs'"
proof -
  assume a: "sample_astype d vs = Some vs'"
  show ?thesis
  proof (cases "d = ''float64''")
    case True
    with a have ok: "list_all (\<lambda>v. float_cell v \<noteq> None) vs"
      and vs': "vs' = map (\<lambda>v. the (float_cell v)) vs"
      by (auto simp: sample_astype_def split: if_splits)
    have "\<forall>w\<in>set vs'. float_cell w = Some w"
      using ok vs' float_cell_again by (auto simp: list_all_iff)
    then have "list_all (\<lambda>v. float_cell v \<noteq> None) vs'"
      and "map (\<lambda>v. the (float_cell v)) vs' = vs'"
      by (auto simp: list_all_iff map_idI)
    with True show ?thesis by (simp add: sample_astype_def)
  next
    case False
    with a show ?thesis by (auto simp: sample_astype_def split: if_splits)
  qed
qed

lemma sample_astype_null:
  "sample_astype d (replicate n PNone) = Some vs' \<Longrightarrow> vs' = replicate n PNone"
  by (auto simp: sample_astype_def map_replicate_const split: if_splits)

text \<open>
  The sample conversion meets the three assumptions; the frame has a title and a column
  that is not canonical.
\<close>

theorem schema_enforcer_witness:
  "\<exists>out ws ws'. enforce_schema sample_env small_frame SILVER_SCHEMA = Inr (out, ws)
     \<and> columns out = map fst SILVER_SCHEMA
     \<and> length (rows out) = 1
     \<and> col_values out ''title'' = [PStr ''A'']
     \<and> enforce_schema sample_env out SILVER_SCHEMA = Inr (out, ws')"
proof -
  have a: "astype sample_env = sample_astype" by (simp add: sample_env_def)
  have len: "\<forall>d vs vs'. astype sample_env d vs = Some vs' \<longrightarrow> length vs' = length vs"
    unfolding a using sample_astype_length by blast
  have idem: "\<forall>d vs vs'. astype sample_env d vs = Some vs' \<longrightarrow>
        astype sample_env d vs' = Some vs' \<or> astype sample_env d vs' = None"
    unfolding a using sample_astype_again by blast
  have null: "\<forall>d n vs'. astype sample_env d (replicate n PNone) = Some vs' \<longrightarrow>
        vs' = replicate n PNone"
    unfolding a using sample_astype_null by blast
  from schema_enforcer [OF len idem null, of small_frame] obtain out ws ws' where
    r: "enforce_schema sample_env small_frame SILVER_SCHEMA = Inr (out, ws)"
    "columns out = map fst SILVER_SCHEMA"
    "length (rows out) = length (rows small_frame)"
    "\<forall>(c, d)\<in>set SILVER_SCHEMA. c \<in> set (columns small_frame) \<longrightarrow>
           col_values out c = coerce sample_env d (col_values small_frame c)"
    "enforce_schema sample_env out SILVER_SCHEMA = Inr (out, ws')"
    by blast
  have "(''title'', ''string'') \<in> set SILVER_SCHEMA" by (simp add: SILVER_SCHEMA_def)
  with r(4) have "col_values out ''title'' = coerce sample_env ''string'' (col_values small_frame ''title'')"
    by (auto simp: small_frame_def)
  also have "\<dots> = [PStr ''A'']"
    by (simp add: coerce_def a sample_astype_def col_values_def small_frame_def cell_def)
  finally have "col_values out ''title'' = [PStr ''A'']" .
  with r(1,2,3,5) show ?thesis by (auto simp: small_frame_def)
qed

section \<open>Properties of the Batch Orchestrator\<close>

lemma bind_pair_Inr:
  "bind_err m (\<lambda>(a, b). f a b) = Inr y \<longleftrightarrow> (\<exists>a b. m = Inr (a, b) \<and> f a b = Inr y)"
  by (cases m) (auto simp: bind_err_def)

lemma transform_stages:
  assumes "transform_shows e key items = Inr out"
  shows "\<exists>df gate_df ch df' ws.
      normalized_frame e items = Inr df
    \<and> apply_data_quality_checks df (int (length items)) = Inr (gate_df, ch)
    \<and> (\<exists>ws2. enforce_schema e gate_df SILVER_SCHEMA = Inr (df', ws2))
    \<and> out = write_and_report e key ch df' ws"
proof -
  from assms obtain rs ws1 where
    l: "normalize_loop e items ([], []) = Inr (rs, ws1)"
    and r1: "bind_err (DataFrame rs) (\<lambda>df0.
      bind_err (apply_data_quality_checks df0 (int (length items))) (\<lambda>(df, quality_metrics).
      bind_err (enforce_schema e df SILVER_SCHEMA) (\<lambda>(df', ws2).
      Inr (write_and_report e key quality_metrics df' (ws1 @ ws2))))) = Inr out"
    unfolding transform_shows_def Let_def bind_pair_Inr by blast
  from r1 obtain df0 where d: "DataFrame rs = Inr df0"
    and r2: "bind_err (apply_data_quality_checks df0 (int (length items)))
      (\<lambda>(df, quality_metrics).
      bind_err (enforce_schema e df SILVER_SCHEMA) (\<lambda>(df', ws2).
      Inr (write_and_report e key quality_metrics df' (ws1 @ ws2)))) = Inr out"
    unfolding bind_err_Inr by blast
  from r2 obtain gate_df ch df' ws2 where
    g: "apply_data_quality_checks df0 (int (length items)) = Inr (gate_df, ch)"
    and en: "enforce_schema e gate_df SILVER_SCHEMA = Inr (df', ws2)"
    and o: "out = write_and_report e key ch df' (ws1 @ ws2)"
    unfolding bind_pair_Inr by blast
  have nf: "normalized_frame e items = Inr df0"
    using l d by (simp add: normalized_frame_def bind_err_simps)
  from nf g en o show ?thesis by blast
qed

lemma write_and_report_fields:
  "report (write_and_report e key ch df ws) = Some ch"
  "quality_pass_rate (returned (write_and_report e key ch df ws)) = pass_rate ch"
  "records_processed (returned (write_and_report e key ch df ws)) = int (length (rows df))"
  "map snd (written (write_and_report e key ch df ws)) = [df]"
  by (simp_all add: write_and_report_def Let_def split: prod.splits)

lemma process_stages:
  assumes "process_bronze_file e raw key = Inr out" and "report out = Some ch"
  shows "\<exists>d items.
      raw = PDict d
    \<and> truthy (dict_get d ''results'' (PList []))
    \<and> py_items (dict_get d ''results'' (PList [])) = Inr items
    \<and> transform_shows e key items = Inr out"
proof -
  from assms(1) obtain sh where g: "py_get raw ''results'' (PList []) = Inr sh"
    and r: "(if \<not> truthy sh then
       Inr \<lparr>returned = \<lparr>records_processed = 0, quality_pass_rate = 0, silver_key = None\<rparr>,
            written = [], published = [], report = None, warnings = [NoShows key]\<rparr>
     else bind_err (py_items sh) (transform_shows e key)) = Inr out"
    unfolding process_bronze_file_def bind_err_Inr by blast
  from g obtain d where raw: "raw = PDict d" and sh: "sh = dict_get d ''results'' (PList [])"
    by (cases raw) (simp_all add: py_get_def)
  have t: "truthy sh"
  proof (rule ccontr)
    assume "\<not> truthy sh"
    with r have "report out = None" by auto
    with assms(2) show False by simp
  qed
  with r have "bind_err (py_items sh) (transform_shows e key) = Inr out" by simp
  then obtain items where "py_items sh = Inr items" "transform_shows e key items = Inr out"
    unfolding bind_err_Inr by blast
  with raw sh t show ?thesis by blast
qed


lemma truthy_items: "truthy v \<Longrightarrow> py_items v = Inr items \<Longrightarrow> items \<noteq> []"
  by (cases v) auto

text \<open>
  C6. Whenever \<^verbatim>\<open>process_bronze_file\<close> returns with a Quality Report: the raw document
  is a map, \<open>initial_count\<close> is the number of raw records under \<^verbatim>\<open>results\<close>, counted
  before normalization; \<open>failed_count = initial_count - final_count\<close>;
  \<open>pass_rate = final_count / initial_count\<close>, which lies between 0 and 1; and the
  pass rate returned is the report's. In the Quality Gate itself, for any count \<open>n\<close> it
  is given, \<open>failed_count = n - final_count\<close> and \<open>pass_rate\<close> is \<open>final_count / n\<close>
  when \<open>n > 0\<close> and 0 otherwise. Pass rates are real numbers here: the rounding of
  the float division is not modelled.
\<close>

theorem quality_report:
  assumes "process_bronze_file e raw key = Inr out" and "report out = Some ch"
  shows "(\<exists>d items. raw = PDict d
       \<and> py_items (dict_get d ''results'' (PList [])) = Inr items
       \<and> initial_count ch = int (length items))
     \<and> failed_count ch = initial_count ch - final_count ch
     \<and> pass_rate ch = real_of_int (final_count ch) / real_of_int (initial_count ch)
     \<and> 0 \<le> pass_rate ch \<and> pass_rate ch \<le> 1
     \<and> quality_pass_rate (returned out) = pass_rate ch
     \<and> (apply_data_quality_checks gdf n = Inr (gdf', ch0) \<longrightarrow>
          failed_count ch0 = n - final_count ch0
          \<and> pass_rate ch0 = (if n > 0 then real_of_int (final_count ch0) / real_of_int n else 0))"
proof -
  from process_stages [OF assms] obtain d items where raw: "raw = PDict d"
    and t: "truthy (dict_get d ''results'' (PList []))"
    and items: "py_items (dict_get d ''results'' (PList [])) = Inr items"
    and tr: "transform_shows e key items = Inr out" by blast
  from transform_stages [OF tr] obtain df gate_df ch' df' ws where
    nf: "normalized_frame e items = Inr df"
    and g: "apply_data_quality_checks df (int (length items)) = Inr (gate_df, ch')"
    and o: "out = write_and_report e key ch' df' ws" by blast
  from o assms(2) have ch: "ch' = ch" by (simp add: write_and_report_fields)
  note gr = gate_rows [OF g [unfolded ch]]
  have pos: "0 < length items" using truthy_items [OF t items] by simp
  have "length (rows gate_df) \<le> length (filter eligible (rows df))"
    unfolding gr(1) using subseq_keep_first [of show_key "[]" "filter eligible (rows df)"]
    by (rule list_emb_length)
  also have "\<dots> \<le> length (rows df)" by simp
  also have "\<dots> \<le> length items" by (rule normalized_frame_Inr(1) [OF nf])
  finally have le: "final_count ch \<le> int (length items)" using gr(7) by simp
  have nonneg: "0 \<le> final_count ch" using gr(7) by simp
  have pr: "pass_rate ch = real_of_int (final_count ch) / real_of_int (initial_count ch)"
    using gr(8,10) pos by simp
  have b0: "0 \<le> pass_rate ch" unfolding pr using nonneg gr(8) pos by simp
  have b1: "pass_rate ch \<le> 1" unfolding pr using le gr(8) pos by simp
  have q: "quality_pass_rate (returned out) = pass_rate ch"
    using o ch by (simp add: write_and_report_fields)
  have z: "apply_data_quality_checks gdf n = Inr (gdf', ch0) \<longrightarrow>
          failed_count ch0 = n - final_count ch0
          \<and> pass_rate ch0 = (if n > 0 then real_of_int (final_count ch0) / real_of_int n else 0)"
    using gate_rows(9,10) by blast
  have ex: "\<exists>d items. raw = PDict d
       \<and> py_items (dict_get d ''results'' (PList [])) = Inr items
       \<and> initial_count ch = int (length items)"
    using raw items gr(8) by blast
  have fc: "failed_count ch = initial_count ch - final_count ch" using gr(8,9) by simp
  from ex fc pr b0 b1 q z show ?thesis by (intro conjI)
qed

text \<open>
  C8. When the raw document is a map whose \<^verbatim>\<open>results\<close> is absent or the empty list,
  \<^verbatim>\<open>process_bronze_file\<close> returns \<open>records_processed = 0\<close> and
  \<open>quality_pass_rate = 0\<close>, writes no object, publishes no metric, makes no Quality
  Report and raises nothing; it logs one warning.
\<close>

theorem empty_batch:
  assumes "map_of d ''results'' = None \<or> map_of d ''results'' = Some (PList [])"
  shows "process_bronze_file e (PDict d) key =
     Inr \<lparr>returned = \<lparr>records_processed = 0, quality_pass_rate = 0, silver_key = None\<rparr>,
          written = [], published = [], report = None, warnings = [NoShows key]\<rparr>"
proof -
  from assms have "py_get (PDict d) ''results'' (PList []) = Inr (PList [])"
    by (auto simp: py_get_def dict_get_def)
  then show ?thesis by (simp add: process_bronze_file_def bind_err_simps)
qed

text \<open>
  A document with an empty list under \<^verbatim>\<open>results\<close>, and one without the key.
\<close>

theorem empty_batch_witness:
  "map_of [(''results'', PList []), (''page'', PInt 1)] ''results'' = Some (PList [])
   \<and> map_of [(''page'', PInt 1)] ''results'' = None
   \<and> process_bronze_file sample_env (PDict [(''results'', PList []), (''page'', PInt 1)])
       (ascii ''k'') =
     Inr \<lparr>returned = \<lparr>records_processed = 0, quality_pass_rate = 0, silver_key = None\<rparr>,
          written = [], published = [], report = None, warnings = [NoShows (ascii ''k'')]\<rparr>
   \<and> process_bronze_file sample_env (PDict [(''page'', PInt 1)]) (ascii ''k'') =
     Inr \<lparr>returned = \<lparr>records_processed = 0, quality_pass_rate = 0, silver_key = None\<rparr>,
          written = [], published = [], report = None, warnings = [NoShows (ascii ''k'')]\<rparr>"
  using empty_batch [of "[(''results'', PList []), (''page'', PInt 1)]" sample_env "ascii ''k''"]
    empty_batch [of "[(''page'', PInt 1)]" sample_env "ascii ''k''"]
  by simp

lemma normalize_show_non_dict: "\<not> is_dict x \<Longrightarrow> normalize_show e x = Inl AttributeError"
  by (cases x) (simp_all add: normalize_show_def)

lemma py_get_non_dict: "\<not> is_dict x \<Longrightarrow> py_get x k dflt = Inl AttributeError"
  by (cases x) (simp_all add: py_get_def)

lemma py_get_dict: "is_dict x \<Longrightarrow> \<exists>v. py_get x k dflt = Inr v"
  by (cases x) (simp_all add: py_get_def)

lemma normalize_loop_non_dict:
  "\<exists>x\<in>set items. \<not> is_dict x \<Longrightarrow> normalize_loop e items acc = Inl AttributeError"
proof (induction items arbitrary: acc)
  case Nil
  then show ?case by simp
next
  case (Cons x xs)
  obtain rs ws where acc: "acc = (rs, ws)" by (cases acc)
  show ?case
  proof (cases "is_dict x")
    case False
    then show ?thesis unfolding acc
      by (simp add: normalize_show_non_dict py_get_non_dict bind_err_simps)
  next
    case True
    with Cons.prems have rest: "\<exists>x\<in>set xs. \<not> is_dict x" by auto
    from py_get_dict [OF True] obtain v where v: "py_get x ''id'' PNone = Inr v" by blast
    show ?thesis unfolding acc
      by (cases "normalize_show e x") (simp_all add: v bind_err_simps Cons.IH [OF rest])
  qed
qed

text \<open>
  C7 fails on the code. When a raw record of the batch is no map, its normalization raises
  \<^verbatim>\<open>AttributeError\<close>, the handler of that exception evaluates \<^verbatim>\<open>show.get('id')\<close> for its
  warning, which raises \<^verbatim>\<open>AttributeError\<close> again, and \<^verbatim>\<open>process_bronze_file\<close> ends with
  that error: the batch is aborted, whatever the other records are.
\<close>

theorem non_map_record_aborts:
  assumes "map_of d ''results'' = Some (PList items)" and "\<exists>x\<in>set items. \<not> is_dict x"
  shows "process_bronze_file e (PDict d) key = Inl AttributeError"
proof -
  from assms(2) have ne: "items \<noteq> []" by auto
  have "py_get (PDict d) ''results'' (PList []) = Inr (PList items)"
    using assms(1) by (simp add: py_get_def dict_get_def)
  moreover have "transform_shows e key items = Inl AttributeError"
    by (simp add: transform_shows_def Let_def normalize_loop_non_dict [OF assms(2)] bind_err_simps)
  ultimately show ?thesis using ne by (simp add: process_bronze_file_def bind_err_simps)
qed

text \<open>A batch whose first record is a string.\<close>

theorem non_map_record_aborts_witness:
  "map_of [(''results'', PList [PStr ''oops'', PDict [(''id'', PInt 1), (''name'', PStr ''A'')]])]
      ''results'' = Some (PList [PStr ''oops'', PDict [(''id'', PInt 1), (''name'', PStr ''A'')]])
   \<and> \<not> is_dict (PStr ''oops'')
   \<and> process_bronze_file sample_env
       (PDict [(''results'', PList [PStr ''oops'', PDict [(''id'', PInt 1), (''name'', PStr ''A'')]])])
       (ascii ''bronze/tmdb/shows/trending/dt=2024-03-01/x.json'') = Inl AttributeError"
  using non_map_record_aborts [of
      "[(''results'', PList [PStr ''oops'', PDict [(''id'', PInt 1), (''name'', PStr ''A'')]])]"
      "[PStr ''oops'', PDict [(''id'', PInt 1), (''name'', PStr ''A'')]]"
      sample_env "ascii ''bronze/tmdb/shows/trending/dt=2024-03-01/x.json''"]
  by simp

text \<open>
  What the loop does by design: a map whose normalization raises (here a null
  \<open>vote_average\<close>) is dropped with a warning and the next record is normalized. When it
  is the only record, the frame has no columns and the Quality Gate raises \<^verbatim>\<open>KeyError\<close>.
\<close>

lemma failing_map_record_dropped:
  "\<exists>rs. normalize_loop sample_env
       [PDict [(''id'', PInt 1), (''vote_average'', PNone)],
        PDict [(''id'', PInt 2), (''name'', PStr ''B'')]] ([], [])
     = Inr (rs, [NormalizeFailed (PInt 1) TypeError]) \<and> length rs = 1"
  by (simp add: normalize_show_def dict_get_def py_get_def bind_err_simps
      cong: bind_err_weak_cong)

lemma only_record_fails:
  "process_bronze_file sample_env
     (PDict [(''results'', PList [PDict [(''id'', PInt 1), (''vote_average'', PNone)]])]) key
     = Inl KeyError"
  by (simp add: process_bronze_file_def transform_shows_def py_get_def dict_get_def
      normalize_show_def DataFrame_empty apply_data_quality_checks_def column_def Let_def
      bind_err_simps cong: bind_err_weak_cong)

lemma transform_shows_Inr:
  assumes "normalize_loop e items ([], []) = Inr (rs, ws1)"
    and "DataFrame rs = Inr df0"
    and "apply_data_quality_checks df0 (int (length items)) = Inr (gate_df, ch)"
    and "enforce_schema e gate_df SILVER_SCHEMA = Inr (df', ws2)"
  shows "transform_shows e key items = Inr (write_and_report e key ch df' (ws1 @ ws2))"
  using assms by (simp add: transform_shows_def bind_err_simps)

lemma gate_run_Inr:
  assumes "gate_run e items n = Inr (gate_df, ch)"
  shows "\<exists>rs ws1 df0. normalize_loop e items ([], []) = Inr (rs, ws1)
     \<and> DataFrame rs = Inr df0
     \<and> apply_data_quality_checks df0 n = Inr (gate_df, ch)"
  using assms unfolding gate_run_def normalized_frame_def bind_err_Inr bind_pair_Inr by auto

lemma sample_env_length:
  "\<forall>d vs vs'. astype sample_env d vs = Some vs' \<longrightarrow> length vs' = length vs"
  using sample_astype_length by (simp add: sample_env_def)

lemma sample_env_null:
  "\<forall>d n vs'. astype sample_env d (replicate n PNone) = Some vs' \<longrightarrow> vs' = replicate n PNone"
  using sample_astype_null by (simp add: sample_env_def)

lemma one_record_run:
  "\<exists>df' ws. process_bronze_file sample_env one_record key =
       Inr (write_and_report sample_env key
         \<lparr>initial_count = 1, missing_show_id = 0, missing_title = 0, invalid_popularity = 0,
          duplicates = 0, final_count = 1, failed_count = 0, pass_rate = 1\<rparr> df' ws)
     \<and> length (rows df') = 1"
proof -
  let ?items = "[PDict [(''id'', PInt 1), (''name'', PStr ''A'')]]"
  let ?ch = "\<lparr>initial_count = 1, missing_show_id = 0, missing_title = 0, invalid_popularity = 0,
          duplicates = 0, final_count = 1, failed_count = 0, pass_rate = 1\<rparr>"
  have "\<exists>gate_df. gate_run sample_env ?items 1 = Inr (gate_df, ?ch) \<and> length (rows gate_df) = 1"
    by (simp add: pipeline_eval cong: bind_err_weak_cong)
  then obtain gate_df where gr: "gate_run sample_env ?items 1 = Inr (gate_df, ?ch)"
    and lg: "length (rows gate_df) = 1" by blast
  from gate_run_Inr [OF gr] obtain rs ws1 df0 where
    l: "normalize_loop sample_env ?items ([], []) = Inr (rs, ws1)"
    and d: "DataFrame rs = Inr df0"
    and g: "apply_data_quality_checks df0 (int (length ?items)) = Inr (gate_df, ?ch)"
    by auto
  from enforce_schema_props [OF sample_env_length distinct_schema_keys, of gate_df]
  obtain df' ws2 where en: "enforce_schema sample_env gate_df SILVER_SCHEMA = Inr (df', ws2)"
    and ld: "length (rows df') = length (rows gate_df)" by blast
  note t = transform_shows_Inr [OF l d g en, of key]
  have "process_bronze_file sample_env one_record key = transform_shows sample_env key ?items"
    by (simp add: process_bronze_file_def one_record_def py_get_def dict_get_def bind_err_simps)
  with t ld lg show ?thesis by auto
qed

lemma process_no_report:
  assumes "process_bronze_file e raw key = Inr out" and "report out = None"
  shows "written out = []"
proof -
  from assms(1) obtain sh where
    r: "(if \<not> truthy sh then
       Inr \<lparr>returned = \<lparr>records_processed = 0, quality_pass_rate = 0, silver_key = None\<rparr>,
            written = [], published = [], report = None, warnings = [NoShows key]\<rparr>
     else bind_err (py_items sh) (transform_shows e key)) = Inr out"
    unfolding process_bronze_file_def bind_err_Inr by blast
  show ?thesis
  proof (cases "truthy sh")
    case False
    with r show ?thesis by auto
  next
    case True
    with r have "bind_err (py_items sh) (transform_shows e key) = Inr out" by simp
    then obtain items where "transform_shows e key items = Inr out"
      by (auto simp: bind_err_Inr)
    from transform_stages [OF this] assms(2) show ?thesis
      by (auto simp: write_and_report_fields)
  qed
qed

lemma set_keep_first: "set (keep_first f seen xs) \<subseteq> set xs"
  by (induction xs arbitrary: seen) auto

lemma all_null_column:
  "\<forall>r\<in>set rs. cell r c = PNone \<Longrightarrow> map (\<lambda>r. cell r c) rs = replicate (length rs) PNone"
  by (induction rs) auto

text \<open>
  C1 fails on the code. For every run of \<^verbatim>\<open>process_bronze_file\<close> that returns, in an
  environment whose column conversion keeps the length and keeps nulls null, every
  record written has a null \<open>data_type\<close>; and in the frame handed to the Quality Gate
  every record has a null \<open>data_type\<close>: nothing stamps the field.
\<close>

theorem data_type_not_stamped:
  assumes len: "\<forall>d vs vs'. astype e d vs = Some vs' \<longrightarrow> length vs' = length vs"
    and null: "\<forall>d n vs'. astype e d (replicate n PNone) = Some vs' \<longrightarrow> vs' = replicate n PNone"
    and run: "process_bronze_file e raw key = Inr out"
  shows "(\<forall>kd\<in>set (written out). \<forall>r\<in>set (rows (snd kd)). cell r ''data_type'' = PNone)
     \<and> (normalized_frame e items = Inr df \<longrightarrow> (\<forall>r\<in>set (rows df). cell r ''data_type'' = PNone))"
proof -
  have w: "\<forall>kd\<in>set (written out). \<forall>r\<in>set (rows (snd kd)). cell r ''data_type'' = PNone"
  proof (cases "report out")
    case None
    from process_no_report [OF run None] show ?thesis by simp
  next
    case (Some ch)
    from process_stages [OF run Some] obtain its where
      tr: "transform_shows e key its = Inr out" by blast
    from transform_stages [OF tr] obtain df0 gate_df ch' df' ws ws2 where
      nf: "normalized_frame e its = Inr df0"
      and g: "apply_data_quality_checks df0 (int (length its)) = Inr (gate_df, ch')"
      and en: "enforce_schema e gate_df SILVER_SCHEMA = Inr (df', ws2)"
      and o: "out = write_and_report e key ch' df' ws" by blast
    have "set (rows gate_df) \<subseteq> set (rows df0)"
      unfolding gate_rows(1) [OF g]
      using set_keep_first [of show_key "[]" "filter eligible (rows df0)"] by auto
    with normalized_frame_Inr(2) [OF nf] have
      "\<forall>r\<in>set (rows gate_df). cell r ''data_type'' = PNone" by blast
    then have src: "source_column gate_df ''data_type'' = replicate (length (rows gate_df)) PNone"
      by (simp add: source_column_def col_values_def all_null_column)
    from enforce_schema_props [OF len distinct_schema_keys, of gate_df] en have
      v: "\<forall>(c, d)\<in>set SILVER_SCHEMA. col_values df' c = coerce e d (source_column gate_df c)"
      by auto
    have "(''data_type'', ''string'') \<in> set SILVER_SCHEMA" by (simp add: SILVER_SCHEMA_def)
    with v have "col_values df' ''data_type'' = coerce e ''string'' (source_column gate_df ''data_type'')"
      by auto
    also have "\<dots> = replicate (length (rows gate_df)) PNone"
      unfolding src using null by (auto simp: coerce_def split: option.splits)
    finally have "set (col_values df' ''data_type'') \<subseteq> {PNone}" by auto
    then have "\<forall>r\<in>set (rows df'). cell r ''data_type'' = PNone"
      by (auto simp: col_values_def)
    moreover have "map snd (written out) = [df']" using o by (simp add: write_and_report_fields)
    ultimately show ?thesis by (auto simp: map_eq_Cons_conv)
  qed
  have "normalized_frame e items = Inr df \<longrightarrow> (\<forall>r\<in>set (rows df). cell r ''data_type'' = PNone)"
    using normalized_frame_Inr(2) by blast
  with w show ?thesis by blast
qed


lemma written_write_and_report:
  "\<exists>skey. written (write_and_report e key ch df ws) = [(skey, df)]"
  by (simp add: write_and_report_def Let_def split: prod.splits)

text \<open>
  One well-formed record under a key whose category is \<^verbatim>\<open>trending\<close>: the record is
  written with a null \<open>data_type\<close>.
\<close>

theorem data_type_not_stamped_witness:
  "\<exists>out skey df r.
      process_bronze_file sample_env one_record
        (ascii ''bronze/tmdb/shows/trending/dt=2024-03-01/x.json'') = Inr out
    \<and> written out = [(skey, df)] \<and> rows df = [r] \<and> cell r ''data_type'' = PNone
    \<and> fst (extract_data_type sample_env (ascii ''bronze/tmdb/shows/trending/dt=2024-03-01/x.json''))
        = ascii ''trending''"
proof -
  let ?key = "ascii ''bronze/tmdb/shows/trending/dt=2024-03-01/x.json''"
  from one_record_run [of ?key] obtain out df ws ch where
    run: "process_bronze_file sample_env one_record ?key = Inr out"
    and o: "out = write_and_report sample_env ?key ch df ws"
    and l: "length (rows df) = 1" by blast
  from written_write_and_report [of sample_env ?key ch df ws] o obtain skey where
    w: "written out = [(skey, df)]" by auto
  from l obtain r where r: "rows df = [r]" by (cases "rows df") auto
  from data_type_not_stamped [OF sample_env_length sample_env_null run] w r
  have "cell r ''data_type'' = PNone" by simp
  moreover have "fst (extract_data_type sample_env ?key) = ascii ''trending''"
    by (simp add: resolver_eval)
  ultimately show ?thesis using run w r by blast
qed

text \<open>
  The report of a batch of one well-formed record.
\<close>

theorem quality_report_witness:
  "\<exists>out ch.
      process_bronze_file sample_env one_record
        (ascii ''bronze/tmdb/shows/trending/dt=2024-03-01/x.json'') = Inr out
    \<and> report out = Some ch \<and> initial_count ch = 1 \<and> final_count ch = 1
    \<and> failed_count ch = 0 \<and> pass_rate ch = 1 \<and> quality_pass_rate (returned out) = 1"
proof -
  let ?key = "ascii ''bronze/tmdb/shows/trending/dt=2024-03-01/x.json''"
  let ?ch = "\<lparr>initial_count = 1, missing_show_id = 0, missing_title = 0, invalid_popularity = 0,
          duplicates = 0, final_count = 1, failed_count = 0, pass_rate = 1\<rparr>"
  from one_record_run [of ?key] obtain out df ws where
    run: "process_bronze_file sample_env one_record ?key = Inr out"
    and o: "out = write_and_report sample_env ?key ?ch df ws" by blast
  have rep: "report out = Some ?ch" using o by (simp add: write_and_report_fields)
  from quality_report [OF run rep] have "quality_pass_rate (returned out) = pass_rate ?ch"
    by blast
  then have "quality_pass_rate (returned out) = 1" by simp
  with run rep show ?thesis by simp
qed

end
